theory Spec2Isabelle
  imports Complex_Main "HOL-Library.Monad_Syntax"
begin

section \<open>Cloud-chamber track extraction: the data model\<close>

text \<open>
  The program \<^verbatim>\<open>Tracking_Software.py\<close> keeps its in-flight tracks in five parallel Python
  lists (\<^verbatim>\<open>len_buffer\<close>, \<^verbatim>\<open>area_buffer\<close>, \<^verbatim>\<open>frame_buffer\<close>, \<^verbatim>\<open>mean_buffer\<close>, \<^verbatim>\<open>seen\<close>) and its
  finished tracks in three more (\<^verbatim>\<open>len_abs\<close>, \<^verbatim>\<open>area_abs\<close>, \<^verbatim>\<open>frames_abs\<close>). The model keeps the
  eight lists as they are, in one record that every step takes and returns.

  Centroids, lengths and distances are doubles in the program; the model holds the value of a
  double as a \<^typ>\<open>real\<close>. The two library calls that compute them, \<^verbatim>\<open>np.mean\<close> and
  \<^verbatim>\<open>scipy.spatial.distance.euclidean\<close>, are parameters of the model, as the labellers are, so
  that every branch the program takes on a distance is taken on the double that the library
  returns. A Python \<^verbatim>\<open>IndexError\<close> is the value \<^term>\<open>None\<close>.
\<close>

type_synonym point = "real \<times> real"

type_synonym image = "nat list list"

text \<open>The three local variables \<^verbatim>\<open>mean\<close>, \<^verbatim>\<open>length\<close> and \<^verbatim>\<open>area\<close> that describe one labelled
  region of the current frame.\<close>

record region =
  r_mean :: point
  r_length :: real
  r_area :: nat

text \<open>The result of a numpy division: a finite double, or one of the three special values
  that a division by zero returns (with a warning, not an exception).\<close>

datatype float64 = Finite real | PosInf | NegInf | NaN

text \<open>\<^verbatim>\<open>x / y\<close> on numpy scalars. The quotient of two finite values is taken without
  rounding.\<close>

definition np_divide :: "real \<Rightarrow> real \<Rightarrow> float64" where
  "np_divide x y =
     (if y \<noteq> 0 then Finite (x / y)
      else if 0 < x then PosInf else if x < 0 then NegInf else NaN)"

record state =
  len_abs :: "float64 list"
  area_abs :: "float64 list"
  frames_abs :: "nat list"
  len_buffer :: "real list"
  area_buffer :: "nat list"
  frame_buffer :: "nat list"
  mean_buffer :: "point list"
  seen :: "nat list"

text \<open>The command-line options the frame loop reads.\<close>

record opts =
  framebuff :: int
  meanshift_length :: int
  denoise_thresh :: int
  pix_per_cm :: int

definition init_state :: state where
  "init_state = \<lparr>len_abs = [], area_abs = [], frames_abs = [], len_buffer = [],
     area_buffer = [], frame_buffer = [], mean_buffer = [], seen = []\<rparr>"

text \<open>\<^verbatim>\<open>scipy.spatial.distance.euclidean\<close> on two-element vectors: the double it returns.\<close>

type_synonym metric = "point \<Rightarrow> point \<Rightarrow> real"

text \<open>The floating-point library calls of the frame loop: \<^verbatim>\<open>np.mean\<close> of an index array and
  \<^verbatim>\<open>distance.euclidean\<close>.\<close>

record numerics =
  np_mean :: "nat list \<Rightarrow> real"
  euclidean :: metric

section \<open>Track association (lines 139 to 158)\<close>

text \<open>The body of the \<^verbatim>\<open>if dis < meanshift_length\<close> branch, for the track at \<open>idx\<close>. Every
  indexed write raises when the index is out of range.\<close>

definition match_track :: "nat \<Rightarrow> region \<Rightarrow> state \<Rightarrow> state option" where
  "match_track idx r s =
     (if idx < length (frame_buffer s) \<and> idx < length (seen s) \<and> idx < length (mean_buffer s)
         \<and> idx < length (len_buffer s) \<and> idx < length (area_buffer s)
      then Some (s\<lparr>frame_buffer := (frame_buffer s)[idx := frame_buffer s ! idx + 1],
                   seen := (seen s)[idx := 1],
                   mean_buffer := (mean_buffer s)[idx := r_mean r],
                   len_buffer := (if r_length r > len_buffer s ! idx
                                  then (len_buffer s)[idx := r_length r] else len_buffer s),
                   area_buffer := (if r_area r > area_buffer s ! idx
                                   then (area_buffer s)[idx := r_area r] else area_buffer s)\<rparr>)
      else None)"

text \<open>\<^verbatim>\<open>for idx, val in enumerate(mean_buffer)\<close>: the list iterator holds a position and stops
  when the position reaches the current length of the list. The loop has no \<^verbatim>\<open>break\<close>. The
  flag is \<^verbatim>\<open>seen_flag\<close>; \<open>distance\<close> is \<^verbatim>\<open>distance.euclidean\<close>, and the test of line 142
  compares the double it returns with the integer \<^verbatim>\<open>meanshift_length\<close>. Distances between
  pixel positions are far below \<open>2\<^sup>5\<^sup>3\<close>, where that comparison is the order of the
  numbers.\<close>

function scan_tracks ::
  "metric \<Rightarrow> int \<Rightarrow> region \<Rightarrow> nat \<Rightarrow> state \<Rightarrow> bool \<Rightarrow> (state \<times> bool) option" where
  "scan_tracks distance m r idx s seen_flag =
     (if idx < length (mean_buffer s) then
        (if distance (mean_buffer s ! idx) (r_mean r) < real_of_int m then
           (case match_track idx r s of
              None \<Rightarrow> None
            | Some s' \<Rightarrow> scan_tracks distance m r (Suc idx) s' True)
         else scan_tracks distance m r (Suc idx) s seen_flag)
      else Some (s, seen_flag))"
  by pat_completeness auto
termination
  by (relation "measure (\<lambda>(distance, m, r, idx, s, f). length (mean_buffer s) - idx)")
     (auto simp: match_track_def split: if_splits)

declare scan_tracks.simps [simp del]

text \<open>The five \<^verbatim>\<open>append\<close> calls of a new track.\<close>

definition new_track :: "region \<Rightarrow> state \<Rightarrow> state" where
  "new_track r s =
     s\<lparr>seen := seen s @ [1],
       frame_buffer := frame_buffer s @ [1],
       mean_buffer := mean_buffer s @ [r_mean r],
       len_buffer := len_buffer s @ [r_length r],
       area_buffer := area_buffer s @ [r_area r]\<rparr>"

text \<open>One region of the frame: scan the tracks, then append when nothing matched.\<close>

definition associate :: "metric \<Rightarrow> int \<Rightarrow> region \<Rightarrow> state \<Rightarrow> state option" where
  "associate distance m r s =
     (case scan_tracks distance m r 0 s False of
        None \<Rightarrow> None
      | Some (s', seen_flag) \<Rightarrow> Some (if \<not> seen_flag then new_track r s' else s'))"

fun associate_all :: "metric \<Rightarrow> int \<Rightarrow> region list \<Rightarrow> state \<Rightarrow> state option" where
  "associate_all distance m [] s = Some s"
| "associate_all distance m (r # rs) s =
     (case associate distance m r s of None \<Rightarrow> None | Some s' \<Rightarrow> associate_all distance m rs s')"

section \<open>Finalization (lines 160 to 173)\<close>

text \<open>\<^verbatim>\<open>seen[:len(seen)] = [0] * len(seen)\<close>.\<close>

definition reset_seen :: "state \<Rightarrow> state" where
  "reset_seen s = s\<lparr>seen := replicate (length (seen s)) 0\<rparr>"

text \<open>\<^verbatim>\<open>np.where(np.array(seen) == 0)[0][::-1]\<close>: computed once, before the loop runs.\<close>

definition unseen_idx :: "state \<Rightarrow> nat list" where
  "unseen_idx s = rev (filter (\<lambda>i. seen s ! i = 0) [0..<length (seen s)])"

definition nth_opt :: "'a list \<Rightarrow> nat \<Rightarrow> 'a option" where
  "nth_opt xs i = (if i < length xs then Some (xs ! i) else None)"

text \<open>\<^verbatim>\<open>del xs[idx]\<close> for a non-negative index.\<close>

definition del :: "nat \<Rightarrow> 'a list \<Rightarrow> 'a list option" where
  "del idx xs = (if idx < length xs then Some (take idx xs @ drop (Suc idx) xs) else None)"

text \<open>The body of the removal loop for one index: the record is appended when the track was
  in view for more than \<^verbatim>\<open>framebuff\<close> frames, then the index is deleted from the five buffers.
  The divisions are numpy's: with \<^verbatim>\<open>pix_per_cm = 0\<close> they return \<^verbatim>\<open>inf\<close> or \<^verbatim>\<open>nan\<close> and the
  loop goes on.\<close>

definition finalize_track :: "opts \<Rightarrow> nat \<Rightarrow> state \<Rightarrow> state option" where
  "finalize_track opt idx s = do {
     fr \<leftarrow> nth_opt (frame_buffer s) idx;
     s1 \<leftarrow> (if int fr > framebuff opt then do {
              l \<leftarrow> nth_opt (len_buffer s) idx;
              a \<leftarrow> nth_opt (area_buffer s) idx;
              Some (s\<lparr>frames_abs := frames_abs s @ [fr],
                      len_abs := len_abs s @ [np_divide l (real_of_int (pix_per_cm opt))],
                      area_abs := area_abs s @
                        [np_divide (real a) (real_of_int ((pix_per_cm opt)\<^sup>2))]\<rparr>)
            } else Some s);
     lb \<leftarrow> del idx (len_buffer s1);
     sn \<leftarrow> del idx (seen s1);
     mb \<leftarrow> del idx (mean_buffer s1);
     ab \<leftarrow> del idx (area_buffer s1);
     fb \<leftarrow> del idx (frame_buffer s1);
     Some (s1\<lparr>len_buffer := lb, seen := sn, mean_buffer := mb, area_buffer := ab,
              frame_buffer := fb\<rparr>)
   }"

fun remove_loop :: "opts \<Rightarrow> nat list \<Rightarrow> state \<Rightarrow> state option" where
  "remove_loop opt [] s = Some s"
| "remove_loop opt (idx # idxs) s =
     (case finalize_track opt idx s of None \<Rightarrow> None | Some s' \<Rightarrow> remove_loop opt idxs s')"

definition finalize :: "opts \<Rightarrow> state \<Rightarrow> state option" where
  "finalize opt s = remove_loop opt (unseen_idx s) s"

text \<open>Lines 130 to 173 for a frame whose surviving regions have the statistics \<open>rs\<close>.\<close>

definition lifecycle :: "metric \<Rightarrow> opts \<Rightarrow> region list \<Rightarrow> state \<Rightarrow> state option" where
  "lifecycle distance opt rs s =
     (case associate_all distance (meanshift_length opt) rs (reset_seen s) of
        None \<Rightarrow> None
      | Some s' \<Rightarrow> finalize opt s')"

section \<open>The image filters\<close>

text \<open>The two connected-component labellers are \<^verbatim>\<open>scipy.ndimage\<close> calls (\<^verbatim>\<open>label\<close> with its
  default structure inside \<^verbatim>\<open>denoise\<close>, \<^verbatim>\<open>measurements.label\<close> with the 3 by 3 structure in the
  frame loop). They are parameters of the model: a labeller answers the labelled array and the
  number of features.\<close>

type_synonym labeler = "image \<Rightarrow> image \<times> nat"

definition shape :: "image \<Rightarrow> nat \<times> nat" where
  "shape img = (length img, if img = [] then 0 else length (hd img))"

text \<open>A numpy array is rectangular.\<close>

definition rect :: "image \<Rightarrow> bool" where
  "rect img = list_all (\<lambda>row. length row = snd (shape img)) img"

text \<open>\<^verbatim>\<open>np.bincount\<close> of a flat array of non-negative integers.\<close>

definition bincount :: "nat list \<Rightarrow> nat list" where
  "bincount xs = (if xs = [] then [] else map (count_list xs) [0..<Suc (fold max xs 0)])"

text \<open>\<^verbatim>\<open>.reshape\<close> of a flat array raises when the sizes differ.\<close>

definition reshape :: "'a list \<Rightarrow> nat \<times> nat \<Rightarrow> 'a list list option" where
  "reshape flat sh =
     (case sh of (h, w) \<Rightarrow>
        if length flat = h * w then Some (map (\<lambda>i. take w (drop (i * w) flat)) [0..<h])
        else None)"

definition denoise :: "labeler \<Rightarrow> image \<Rightarrow> int \<Rightarrow> image option" where
  "denoise label img nthresh =
     (case label img of (labeled_array, num_features) \<Rightarrow>
        let binc = bincount (concat labeled_array);
            noise_idx = filter (\<lambda>k. int (binc ! k) \<le> nthresh) [0..<length binc]
        in (case reshape (map (\<lambda>l. l \<in> set noise_idx) (concat labeled_array)) (shape img) of
              None \<Rightarrow> None
            | Some mask_arr \<Rightarrow> Some (map2 (map2 (\<lambda>v m. if m then 0 else v)) img mask_arr)))"

text \<open>\<^verbatim>\<open>a[np.nonzero(a)]\<close> and \<^verbatim>\<open>image[image == val] = 0\<close>.\<close>

definition nonzero_vals :: "nat list \<Rightarrow> nat list" where
  "nonzero_vals xs = filter (\<lambda>v. v \<noteq> 0) xs"

definition zero_label :: "nat \<Rightarrow> image \<Rightarrow> image" where
  "zero_label val img = map (map (\<lambda>v. if v = val then 0 else v)) img"

text \<open>Indexing row 0 or column 0 of an array with no rows or no columns raises. The four
  border lists are read before the first write.\<close>

definition remove_border_tracks :: "image \<Rightarrow> image option" where
  "remove_border_tracks img =
     (if img = [] \<or> list_ex (\<lambda>row. row = []) img then None
      else
        let lb = nonzero_vals (map hd img);
            rb = nonzero_vals (map last img);
            tb = nonzero_vals (butlast (tl (hd img)));
            bb = nonzero_vals (butlast (tl (last img)))
        in Some (fold zero_label bb (fold zero_label tb (fold zero_label rb
                   (fold zero_label lb img)))))"

text \<open>\<^verbatim>\<open>np.all(image == 0)\<close>.\<close>

definition all_zero :: "image \<Rightarrow> bool" where
  "all_zero img = list_all (list_all (\<lambda>v. v = 0)) img"

section \<open>Region statistics (lines 133 to 138)\<close>

text \<open>\<^verbatim>\<open>np.where(clusters == lab)\<close>: the positions (row, column) in row-major order.\<close>

definition where_eq :: "image \<Rightarrow> nat \<Rightarrow> (nat \<times> nat) list" where
  "where_eq img lab =
     concat (map (\<lambda>(i, row). map (\<lambda>j. (i, j)) (filter (\<lambda>j. row ! j = lab) [0..<length row]))
                 (enumerate 0 img))"

definition get_length :: "numerics \<Rightarrow> (nat \<times> nat) list \<Rightarrow> real option" where
  "get_length fp idx_lists =
     (if idx_lists = [] then None
      else Some (euclidean fp (real (fst (hd idx_lists)), real (snd (hd idx_lists)))
                              (real (fst (last idx_lists)), real (snd (last idx_lists)))))"

definition get_area :: "image \<Rightarrow> nat list" where
  "get_area idx_lists = bincount (concat idx_lists)"

text \<open>The statistics of label \<open>lab\<close>, for a label that has pixels.\<close>

definition describe :: "numerics \<Rightarrow> image \<Rightarrow> nat \<Rightarrow> region option" where
  "describe fp clusters lab = do {
     let idxs = where_eq clusters lab;
     let mean = (np_mean fp (map snd idxs), np_mean fp (map fst idxs));
     length \<leftarrow> get_length fp idxs;
     area \<leftarrow> nth_opt (get_area clusters) lab;
     Some \<lparr>r_mean = mean, r_length = length, r_area = area\<rparr>
   }"

text \<open>\<^verbatim>\<open>for lab in labels\<close>, with the \<^verbatim>\<open>continue\<close> for a label that has no pixel left.\<close>

fun label_loop :: "numerics \<Rightarrow> opts \<Rightarrow> image \<Rightarrow> nat list \<Rightarrow> state \<Rightarrow> state option" where
  "label_loop fp opt clusters [] s = Some s"
| "label_loop fp opt clusters (lab # labels) s =
     (if where_eq clusters lab = [] then label_loop fp opt clusters labels s
      else do {
        r \<leftarrow> describe fp clusters lab;
        s' \<leftarrow> associate (euclidean fp) (meanshift_length opt) r s;
        label_loop fp opt clusters labels s'
      })"

section \<open>The frame loop (lines 108 to 176)\<close>

text \<open>One iteration, from the foreground mask of the frame on. Either \<^verbatim>\<open>continue\<close> leaves
  the state as it is.\<close>

definition process_frame ::
  "numerics \<Rightarrow> labeler \<Rightarrow> labeler \<Rightarrow> opts \<Rightarrow> image \<Rightarrow> state \<Rightarrow> state option" where
  "process_frame fp label4 label8 opt fgmask s = do {
     mask_proc \<leftarrow> denoise label4 fgmask (denoise_thresh opt);
     if all_zero mask_proc then Some s
     else (case label8 mask_proc of (clusters0, num) \<Rightarrow> do {
       let labels = [1..<num + 1];
       clusters \<leftarrow> remove_border_tracks clusters0;
       if all_zero clusters then Some s
       else do {
         s1 \<leftarrow> label_loop fp opt clusters labels (reset_seen s);
         finalize opt s1
       }
     })
   }"

fun main_loop ::
  "numerics \<Rightarrow> labeler \<Rightarrow> labeler \<Rightarrow> opts \<Rightarrow> image list \<Rightarrow> state \<Rightarrow> state option" where
  "main_loop fp label4 label8 opt [] s = Some s"
| "main_loop fp label4 label8 opt (fgmask # masks) s =
     (case process_frame fp label4 label8 opt fgmask s of
        None \<Rightarrow> None
      | Some s' \<Rightarrow> main_loop fp label4 label8 opt masks s')"

text \<open>The columns of the data frame written after the loop.\<close>

definition data :: "state \<Rightarrow> float64 list \<times> float64 list \<times> nat list" where
  "data s = (len_abs s, area_abs s, frames_abs s)"

definition program ::
  "numerics \<Rightarrow> labeler \<Rightarrow> labeler \<Rightarrow> opts \<Rightarrow> image list \<Rightarrow>
     (float64 list \<times> float64 list \<times> nat list) option" where
  "program fp label4 label8 opt masks =
     map_option data (main_loop fp label4 label8 opt masks init_state)"

section \<open>Predicates of the specification\<close>

text \<open>The five track buffers have one length.\<close>

definition store_inv :: "state \<Rightarrow> bool" where
  "store_inv s =
     (length (len_buffer s) = length (mean_buffer s) \<and>
      length (area_buffer s) = length (mean_buffer s) \<and>
      length (frame_buffer s) = length (mean_buffer s) \<and>
      length (seen s) = length (mean_buffer s))"

text \<open>The test of line 142 for track \<open>i\<close> of the store \<open>s\<close> against the region \<open>r\<close>, on the
  double that \<open>distance\<close> returns.\<close>

definition near :: "metric \<Rightarrow> int \<Rightarrow> region \<Rightarrow> state \<Rightarrow> nat \<Rightarrow> bool" where
  "near distance m r s i = (distance (mean_buffer s ! i) (r_mean r) < real_of_int m)"

text \<open>How many regions of the list pass the test for track \<open>i\<close>, each one against the store
  as the regions before it left it.\<close>

fun match_count :: "metric \<Rightarrow> int \<Rightarrow> region list \<Rightarrow> state \<Rightarrow> nat \<Rightarrow> nat" where
  "match_count distance m [] s i = 0"
| "match_count distance m (r # rs) s i =
     (if near distance m r s i then 1 else 0) +
     (case associate distance m r s of None \<Rightarrow> 0 | Some s' \<Rightarrow> match_count distance m rs s' i)"

text \<open>The statistics of the labels that still have pixels, in the order of the label loop.\<close>

definition regions_of :: "numerics \<Rightarrow> image \<Rightarrow> nat list \<Rightarrow> region list" where
  "regions_of fp clusters labels =
     map (\<lambda>lab. the (describe fp clusters lab))
         (filter (\<lambda>lab. where_eq clusters lab \<noteq> []) labels)"

text \<open>The frame loop seen from the region statistics: one list of regions for each frame
  that is not skipped.\<close>

fun run_frames :: "metric \<Rightarrow> opts \<Rightarrow> region list list \<Rightarrow> state \<Rightarrow> state option" where
  "run_frames distance opt [] s = Some s"
| "run_frames distance opt (rs # rss) s =
     (case lifecycle distance opt rs s of None \<Rightarrow> None | Some s' \<Rightarrow> run_frames distance opt rss s')"


text \<open>A frame is skipped when nothing is left after \<^verbatim>\<open>denoise\<close>, or nothing is left after
  \<^verbatim>\<open>remove_border_tracks\<close>.\<close>

definition skipped :: "labeler \<Rightarrow> labeler \<Rightarrow> opts \<Rightarrow> image \<Rightarrow> bool" where
  "skipped label4 label8 opt fgmask =
     (case denoise label4 fgmask (denoise_thresh opt) of
        None \<Rightarrow> False
      | Some mask_proc \<Rightarrow>
          all_zero mask_proc \<or>
          (case remove_border_tracks (fst (label8 mask_proc)) of
             None \<Rightarrow> False
           | Some clusters \<Rightarrow> all_zero clusters))"

text \<open>Position \<open>(i, j)\<close> lies in row 0, the last row, column 0 or the last column of an
  \<open>h\<close> by \<open>w\<close> image; a label touches the border when one of its pixels lies there.\<close>

definition on_border :: "nat \<Rightarrow> nat \<Rightarrow> nat \<Rightarrow> nat \<Rightarrow> bool" where
  "on_border h w i j = (i = 0 \<or> Suc i = h \<or> j = 0 \<or> Suc j = w)"

definition touches_border :: "image \<Rightarrow> nat \<Rightarrow> bool" where
  "touches_border img v =
     (\<exists>i\<in>{0..<length img}. \<exists>j\<in>{0..<length (img ! i)}.
        on_border (length img) (length (img ! i)) i j \<and> img ! i ! j = v)"

text \<open>The number of pixels that carry the label \<open>l\<close> in a labelled array.\<close>

definition pixel_count :: "image \<Rightarrow> nat \<Rightarrow> nat" where
  "pixel_count labeled_array l = count_list (concat labeled_array) l"

text \<open>The mean and the distance without rounding, for the examples. The examples below use
  them only where the doubles of numpy and scipy are these values exactly: means of equal
  small integers, and distances 0, 1, 5, 100 and 500 between points with small integer
  coordinates.\<close>

definition exact :: numerics where
  "exact = \<lparr>np_mean = (\<lambda>xs. real (sum_list xs) / real (length xs)),
             euclidean = (\<lambda>u v. sqrt ((fst u - fst v)\<^sup>2 + (snd u - snd v)\<^sup>2))\<rparr>"

section \<open>Lemmas on the track store\<close>

lemma euclidean_less_iff:
  "euclidean exact u v < real_of_int m \<longleftrightarrow>
     0 < m \<and> (fst u - fst v)\<^sup>2 + (snd u - snd v)\<^sup>2 < (real_of_int m)\<^sup>2"
proof (cases "0 < m")
  case True
  then have "real_of_int m = sqrt ((real_of_int m)\<^sup>2)" by simp
  then have "euclidean exact u v < real_of_int m \<longleftrightarrow>
      sqrt ((fst u - fst v)\<^sup>2 + (snd u - snd v)\<^sup>2) < sqrt ((real_of_int m)\<^sup>2)"
    unfolding exact_def by simp
  also have "\<dots> \<longleftrightarrow> (fst u - fst v)\<^sup>2 + (snd u - snd v)\<^sup>2 < (real_of_int m)\<^sup>2"
    by (rule real_sqrt_less_iff)
  finally show ?thesis using True by simp
next
  case False
  have "0 \<le> euclidean exact u v" unfolding exact_def by simp
  with False show ?thesis by auto
qed

lemma match_track_Some:
  "store_inv s \<Longrightarrow> idx < length (mean_buffer s) \<Longrightarrow> \<exists>s'. match_track idx r s = Some s'"
  by (simp add: match_track_def store_inv_def)

lemma match_track_inv:
  "match_track idx r s = Some s' \<Longrightarrow> store_inv s \<Longrightarrow> store_inv s' \<and> length (mean_buffer s') = length (mean_buffer s)
     \<and> len_abs s' = len_abs s \<and> area_abs s' = area_abs s \<and> frames_abs s' = frames_abs s"
  by (auto simp: match_track_def store_inv_def split: if_splits)

lemma scan_tracks_Some:
  "store_inv s \<Longrightarrow> \<exists>s' f. scan_tracks distance m r idx s flag = Some (s', f) \<and> store_inv s'
      \<and> length (mean_buffer s') = length (mean_buffer s)
      \<and> len_abs s' = len_abs s \<and> area_abs s' = area_abs s \<and> frames_abs s' = frames_abs s"
proof (induction distance m r idx s flag rule: scan_tracks.induct)
  case (1 distance m r idx s seen_flag)
  show ?case
  proof (cases "idx < length (mean_buffer s)")
    case False
    then show ?thesis using "1.prems" by (subst scan_tracks.simps) simp
  next
    case in_range: True
    show ?thesis
    proof (cases "distance (mean_buffer s ! idx) (r_mean r) < real_of_int m")
      case False
      with in_range "1.IH"(2) "1.prems" show ?thesis
        by (subst scan_tracks.simps) simp
    next
      case True
      from match_track_Some [OF "1.prems" in_range] obtain s1 where s1: "match_track idx r s = Some s1"
        by blast
      from match_track_inv [OF s1 "1.prems"] "1.IH"(1) [OF in_range True s1] in_range True s1
      show ?thesis
        by (subst scan_tracks.simps) auto
    qed
  qed
qed

lemma match_track_nth:
  assumes "match_track idx r s = Some s1" "store_inv s" "i < length (mean_buffer s)"
  shows "frame_buffer s1 ! i = (if i = idx then frame_buffer s ! i + 1 else frame_buffer s ! i)"
    and "seen s1 ! i = (if i = idx then 1 else seen s ! i)"
    and "mean_buffer s1 ! i = (if i = idx then r_mean r else mean_buffer s ! i)"
    and "len_buffer s1 ! i = (if i = idx then max (len_buffer s ! i) (r_length r) else len_buffer s ! i)"
    and "area_buffer s1 ! i = (if i = idx then max (area_buffer s ! i) (r_area r) else area_buffer s ! i)"
  using assms
  by (auto simp: match_track_def store_inv_def nth_list_update split: if_splits)

lemma scan_tracks_nth:
  assumes "scan_tracks distance m r idx s flag = Some (s', f)" "store_inv s" "i < length (mean_buffer s)"
  shows "frame_buffer s' ! i = (if idx \<le> i \<and> near distance m r s i then frame_buffer s ! i + 1 else frame_buffer s ! i)
       \<and> seen s' ! i = (if idx \<le> i \<and> near distance m r s i then 1 else seen s ! i)
       \<and> mean_buffer s' ! i = (if idx \<le> i \<and> near distance m r s i then r_mean r else mean_buffer s ! i)
       \<and> len_buffer s' ! i = (if idx \<le> i \<and> near distance m r s i then max (len_buffer s ! i) (r_length r) else len_buffer s ! i)
       \<and> area_buffer s' ! i = (if idx \<le> i \<and> near distance m r s i then max (area_buffer s ! i) (r_area r) else area_buffer s ! i)"
  using assms
proof (induction distance m r idx s flag rule: scan_tracks.induct)
  case (1 distance m r idx s seen_flag)
  show ?case
  proof (cases "idx < length (mean_buffer s)")
    case False
    with "1.prems" show ?thesis by (subst (asm) scan_tracks.simps) simp
  next
    case in_range: True
    show ?thesis
    proof (cases "distance (mean_buffer s ! idx) (r_mean r) < real_of_int m")
      case False
      with in_range "1.prems" have rec: "scan_tracks distance m r (Suc idx) s seen_flag = Some (s', f)"
        by (subst (asm) scan_tracks.simps) simp
      from "1.IH"(2) [OF in_range False rec "1.prems"(2,3)] False show ?thesis
        by (cases "i = idx") (auto simp: near_def Suc_le_eq)
    next
      case True
      from match_track_Some [OF "1.prems"(2) in_range] obtain s1 where s1: "match_track idx r s = Some s1"
        by blast
      with in_range True "1.prems" have rec: "scan_tracks distance m r (Suc idx) s1 True = Some (s', f)"
        by (subst (asm) scan_tracks.simps) simp
      from match_track_inv [OF s1 "1.prems"(2)] have inv1: "store_inv s1"
        and len1: "length (mean_buffer s1) = length (mean_buffer s)" by simp_all
      have i1: "i < length (mean_buffer s1)" using len1 "1.prems"(3) by simp
      note ih = "1.IH"(1) [OF in_range True s1 rec inv1 i1]
      note m1 = match_track_nth [OF s1 "1.prems"(2,3)]
      show ?thesis
      proof (cases "i = idx")
        case True
        with ih m1 \<open>distance (mean_buffer s ! idx) (r_mean r) < real_of_int m\<close>
        show ?thesis by (simp add: near_def)
      next
        case False
        then have "near distance m r s1 i = near distance m r s i" using m1(3) by (simp add: near_def)
        with ih m1 False show ?thesis by (auto simp: Suc_le_eq)
      qed
    qed
  qed
qed

lemma scan_tracks_flag:
  assumes "scan_tracks distance m r idx s flag = Some (s', f)" "store_inv s"
  shows "f \<longleftrightarrow> flag \<or> (\<exists>i. idx \<le> i \<and> i < length (mean_buffer s) \<and> near distance m r s i)"
  using assms
proof (induction distance m r idx s flag rule: scan_tracks.induct)
  case (1 distance m r idx s seen_flag)
  show ?case
  proof (cases "idx < length (mean_buffer s)")
    case False
    with "1.prems" show ?thesis by (subst (asm) scan_tracks.simps) auto
  next
    case in_range: True
    show ?thesis
    proof (cases "distance (mean_buffer s ! idx) (r_mean r) < real_of_int m")
      case False
      with in_range "1.prems" have rec: "scan_tracks distance m r (Suc idx) s seen_flag = Some (s', f)"
        by (subst (asm) scan_tracks.simps) simp
      have "(\<exists>i. idx \<le> i \<and> i < length (mean_buffer s) \<and> near distance m r s i)
          \<longleftrightarrow> (\<exists>i. Suc idx \<le> i \<and> i < length (mean_buffer s) \<and> near distance m r s i)"
        using False by (metis Suc_leI le_eq_less_or_eq near_def Suc_leD)
      with "1.IH"(2) [OF in_range False rec "1.prems"(2)] show ?thesis by simp
    next
      case True
      from match_track_Some [OF "1.prems"(2) in_range] obtain s1 where s1: "match_track idx r s = Some s1"
        by blast
      with in_range True "1.prems" have rec: "scan_tracks distance m r (Suc idx) s1 True = Some (s', f)"
        by (subst (asm) scan_tracks.simps) simp
      from match_track_inv [OF s1 "1.prems"(2)] have inv1: "store_inv s1" by simp
      from "1.IH"(1) [OF in_range True s1 rec inv1] have "f" by simp
      moreover have "near distance m r s idx" using True by (simp add: near_def)
      ultimately show ?thesis using in_range by auto
    qed
  qed
qed

lemma nths_del:
  assumes "idx < length xs" "\<forall>i\<in>set idxs. i < idx"
  shows "nths (take idx xs @ drop (Suc idx) xs) (- set idxs) = nths xs (- set (idx # idxs))"
proof -
  have A: "{j. j + idx \<notin> set idxs} = UNIV" using assms(2) by auto
  have B: "{j. j + idx \<in> - set (idx # idxs)} = {j. j \<noteq> 0}" using assms(2) by auto
  have C: "{j. Suc j \<in> {j. j \<noteq> 0}} = UNIV" by auto
  have D: "nths (take idx xs) (- set idxs) = nths (take idx xs) (- set (idx # idxs))"
    unfolding nths_def
    by (rule arg_cong [where f = "map fst"], rule filter_cong) (auto simp: set_zip)
  have "xs = take idx xs @ xs ! idx # drop (Suc idx) xs"
    using assms(1) by (simp add: id_take_nth_drop)
  then have "nths xs (- set (idx # idxs)) =
      nths (take idx xs @ xs ! idx # drop (Suc idx) xs) (- set (idx # idxs))" by simp
  also have "\<dots> = nths (take idx xs) (- set (idx # idxs)) @ drop (Suc idx) xs"
    using assms(1) by (simp only: nths_append length_take min.absorb2 less_imp_le B nths_Cons C) (simp add: nths_all)
  finally show ?thesis
    using assms(1) by (simp add: nths_append A D min.absorb2 nths_all)
qed

lemma finalize_track_char:
  assumes "store_inv s" "idx < length (mean_buffer s)"
  shows "\<exists>s'. finalize_track opt idx s = Some s' \<and> store_inv s'
     \<and> length (mean_buffer s') = length (mean_buffer s) - 1
     \<and> len_buffer s' = take idx (len_buffer s) @ drop (Suc idx) (len_buffer s)
     \<and> area_buffer s' = take idx (area_buffer s) @ drop (Suc idx) (area_buffer s)
     \<and> frame_buffer s' = take idx (frame_buffer s) @ drop (Suc idx) (frame_buffer s)
     \<and> mean_buffer s' = take idx (mean_buffer s) @ drop (Suc idx) (mean_buffer s)
     \<and> seen s' = take idx (seen s) @ drop (Suc idx) (seen s)
     \<and> frames_abs s' = frames_abs s @ (if framebuff opt < int (frame_buffer s ! idx) then [frame_buffer s ! idx] else [])
     \<and> len_abs s' = len_abs s @ (if framebuff opt < int (frame_buffer s ! idx) then [np_divide (len_buffer s ! idx) (real_of_int (pix_per_cm opt))] else [])
     \<and> area_abs s' = area_abs s @ (if framebuff opt < int (frame_buffer s ! idx) then [np_divide (real (area_buffer s ! idx)) (real_of_int ((pix_per_cm opt)\<^sup>2))] else [])"
  using assms
  by (auto simp: finalize_track_def store_inv_def nth_opt_def del_def)

lemma nth_del_below: "i < idx \<Longrightarrow> idx < length xs \<Longrightarrow> (take idx xs @ drop (Suc idx) xs) ! i = xs ! i"
  by (simp add: nth_append)

lemma remove_loop_char:
  assumes "store_inv s" "sorted_wrt (>) idxs" "\<forall>i\<in>set idxs. i < length (mean_buffer s)"
  shows "\<exists>s'. remove_loop opt idxs s = Some s' \<and> store_inv s'
     \<and> len_buffer s' = nths (len_buffer s) (- set idxs)
     \<and> area_buffer s' = nths (area_buffer s) (- set idxs)
     \<and> frame_buffer s' = nths (frame_buffer s) (- set idxs)
     \<and> mean_buffer s' = nths (mean_buffer s) (- set idxs)
     \<and> seen s' = nths (seen s) (- set idxs)
     \<and> frames_abs s' = frames_abs s @
          map (\<lambda>i. frame_buffer s ! i) (filter (\<lambda>i. framebuff opt < int (frame_buffer s ! i)) idxs)
     \<and> len_abs s' = len_abs s @
          map (\<lambda>i. np_divide (len_buffer s ! i) (real_of_int (pix_per_cm opt)))
              (filter (\<lambda>i. framebuff opt < int (frame_buffer s ! i)) idxs)
     \<and> area_abs s' = area_abs s @
          map (\<lambda>i. np_divide (real (area_buffer s ! i)) (real_of_int ((pix_per_cm opt)\<^sup>2)))
              (filter (\<lambda>i. framebuff opt < int (frame_buffer s ! i)) idxs)"
  using assms
proof (induction idxs arbitrary: s)
  case Nil
  then show ?case by (simp add: nths_all)
next
  case (Cons idx idxs)
  have idx: "idx < length (mean_buffer s)" using Cons.prems(3) by simp
  have below: "\<forall>i\<in>set idxs. i < idx" using Cons.prems(2) by auto
  have lens: "idx < length (len_buffer s)" "idx < length (area_buffer s)"
    "idx < length (frame_buffer s)" "idx < length (seen s)"
    using idx Cons.prems(1) by (simp_all add: store_inv_def)
  from finalize_track_char [OF Cons.prems(1) idx, of opt] obtain s1 where
    s1: "finalize_track opt idx s = Some s1" and inv1: "store_inv s1"
    and len1: "length (mean_buffer s1) = length (mean_buffer s) - 1"
    and lb: "len_buffer s1 = take idx (len_buffer s) @ drop (Suc idx) (len_buffer s)"
    and ab: "area_buffer s1 = take idx (area_buffer s) @ drop (Suc idx) (area_buffer s)"
    and fb: "frame_buffer s1 = take idx (frame_buffer s) @ drop (Suc idx) (frame_buffer s)"
    and mb: "mean_buffer s1 = take idx (mean_buffer s) @ drop (Suc idx) (mean_buffer s)"
    and sn: "seen s1 = take idx (seen s) @ drop (Suc idx) (seen s)"
    and fa: "frames_abs s1 = frames_abs s @ (if framebuff opt < int (frame_buffer s ! idx) then [frame_buffer s ! idx] else [])"
    and la: "len_abs s1 = len_abs s @ (if framebuff opt < int (frame_buffer s ! idx) then [np_divide (len_buffer s ! idx) (real_of_int (pix_per_cm opt))] else [])"
    and aa: "area_abs s1 = area_abs s @ (if framebuff opt < int (frame_buffer s ! idx) then [np_divide (real (area_buffer s ! idx)) (real_of_int ((pix_per_cm opt)\<^sup>2))] else [])"
    by blast
  have rng: "\<forall>i\<in>set idxs. i < length (mean_buffer s1)"
    using below idx len1 by auto
  have srt: "sorted_wrt (>) idxs" using Cons.prems(2) by simp
  from Cons.IH [OF inv1 srt rng] obtain s' where
    r: "remove_loop opt idxs s1 = Some s'" and inv': "store_inv s'"
    and lb': "len_buffer s' = nths (len_buffer s1) (- set idxs)"
    and ab': "area_buffer s' = nths (area_buffer s1) (- set idxs)"
    and fb': "frame_buffer s' = nths (frame_buffer s1) (- set idxs)"
    and mb': "mean_buffer s' = nths (mean_buffer s1) (- set idxs)"
    and sn': "seen s' = nths (seen s1) (- set idxs)"
    and fa': "frames_abs s' = frames_abs s1 @
          map (\<lambda>i. frame_buffer s1 ! i) (filter (\<lambda>i. framebuff opt < int (frame_buffer s1 ! i)) idxs)"
    and la': "len_abs s' = len_abs s1 @
          map (\<lambda>i. np_divide (len_buffer s1 ! i) (real_of_int (pix_per_cm opt)))
              (filter (\<lambda>i. framebuff opt < int (frame_buffer s1 ! i)) idxs)"
    and aa': "area_abs s' = area_abs s1 @
          map (\<lambda>i. np_divide (real (area_buffer s1 ! i)) (real_of_int ((pix_per_cm opt)\<^sup>2)))
              (filter (\<lambda>i. framebuff opt < int (frame_buffer s1 ! i)) idxs)"
    by blast
  have f_eq: "filter (\<lambda>i. framebuff opt < int (frame_buffer s1 ! i)) idxs
            = filter (\<lambda>i. framebuff opt < int (frame_buffer s ! i)) idxs"
    by (rule filter_cong) (use below lens fb in \<open>simp_all add: nth_del_below\<close>)
  have m_f: "map (\<lambda>i. frame_buffer s1 ! i) (filter (\<lambda>i. framebuff opt < int (frame_buffer s ! i)) idxs)
           = map (\<lambda>i. frame_buffer s ! i) (filter (\<lambda>i. framebuff opt < int (frame_buffer s ! i)) idxs)"
    by (rule map_cong) (use below lens fb in \<open>simp_all add: nth_del_below\<close>)
  have m_l: "map (\<lambda>i. np_divide (len_buffer s1 ! i) (real_of_int (pix_per_cm opt))) (filter (\<lambda>i. framebuff opt < int (frame_buffer s ! i)) idxs)
           = map (\<lambda>i. np_divide (len_buffer s ! i) (real_of_int (pix_per_cm opt))) (filter (\<lambda>i. framebuff opt < int (frame_buffer s ! i)) idxs)"
    by (rule map_cong) (use below lens lb in \<open>simp_all add: nth_del_below\<close>)
  have m_a: "map (\<lambda>i. np_divide (real (area_buffer s1 ! i)) (real_of_int ((pix_per_cm opt)\<^sup>2))) (filter (\<lambda>i. framebuff opt < int (frame_buffer s ! i)) idxs)
           = map (\<lambda>i. np_divide (real (area_buffer s ! i)) (real_of_int ((pix_per_cm opt)\<^sup>2))) (filter (\<lambda>i. framebuff opt < int (frame_buffer s ! i)) idxs)"
    by (rule map_cong) (use below lens ab in \<open>simp_all add: nth_del_below\<close>)
  have "remove_loop opt (idx # idxs) s = Some s'" using s1 r by simp
  moreover have "len_buffer s' = nths (len_buffer s) (- set (idx # idxs))"
    unfolding lb' lb by (rule nths_del [OF lens(1) below])
  moreover have "area_buffer s' = nths (area_buffer s) (- set (idx # idxs))"
    unfolding ab' ab by (rule nths_del [OF lens(2) below])
  moreover have "frame_buffer s' = nths (frame_buffer s) (- set (idx # idxs))"
    unfolding fb' fb by (rule nths_del [OF lens(3) below])
  moreover have "mean_buffer s' = nths (mean_buffer s) (- set (idx # idxs))"
    unfolding mb' mb by (rule nths_del [OF idx below])
  moreover have "seen s' = nths (seen s) (- set (idx # idxs))"
    unfolding sn' sn by (rule nths_del [OF lens(4) below])
  moreover have "frames_abs s' = frames_abs s @
          map (\<lambda>i. frame_buffer s ! i) (filter (\<lambda>i. framebuff opt < int (frame_buffer s ! i)) (idx # idxs))"
    unfolding fa' f_eq m_f fa by simp
  moreover have "len_abs s' = len_abs s @
          map (\<lambda>i. np_divide (len_buffer s ! i) (real_of_int (pix_per_cm opt)))
              (filter (\<lambda>i. framebuff opt < int (frame_buffer s ! i)) (idx # idxs))"
    unfolding la' f_eq m_l la by simp
  moreover have "area_abs s' = area_abs s @
          map (\<lambda>i. np_divide (real (area_buffer s ! i)) (real_of_int ((pix_per_cm opt)\<^sup>2)))
              (filter (\<lambda>i. framebuff opt < int (frame_buffer s ! i)) (idx # idxs))"
    unfolding aa' f_eq m_a aa by simp
  ultimately show ?case using inv' by blast
qed

lemma unseen_idx_sorted: "sorted_wrt (>) (unseen_idx s)"
proof -
  have "sorted_wrt (<) (filter (\<lambda>i. seen s ! i = 0) [0..<length (seen s)])"
    by (rule sorted_wrt_filter) simp
  then show ?thesis unfolding unseen_idx_def by (simp add: sorted_wrt_rev)
qed

lemma set_unseen_idx: "set (unseen_idx s) = {i. i < length (seen s) \<and> seen s ! i = 0}"
  by (auto simp: unseen_idx_def)

lemma nths_unseen: "nths xs (- set (unseen_idx s)) = nths xs {i. length (seen s) \<le> i \<or> seen s ! i \<noteq> 0}"
  by (rule arg_cong [where f = "nths xs"]) (auto simp: set_unseen_idx)

lemma new_track_inv: "store_inv s \<Longrightarrow> store_inv (new_track r s)"
  by (simp add: store_inv_def new_track_def)

lemma new_track_nth:
  assumes "store_inv s" "i < length (mean_buffer s)"
  shows "frame_buffer (new_track r s) ! i = frame_buffer s ! i"
    and "seen (new_track r s) ! i = seen s ! i"
    and "mean_buffer (new_track r s) ! i = mean_buffer s ! i"
    and "len_buffer (new_track r s) ! i = len_buffer s ! i"
    and "area_buffer (new_track r s) ! i = area_buffer s ! i"
  using assms by (simp_all add: store_inv_def new_track_def nth_append)

lemma associate_Some:
  assumes "store_inv s"
  shows "\<exists>s'. associate distance m r s = Some s' \<and> store_inv s'
      \<and> length (mean_buffer s') =
          (if \<exists>i<length (mean_buffer s). near distance m r s i then length (mean_buffer s)
           else Suc (length (mean_buffer s)))
      \<and> len_abs s' = len_abs s \<and> area_abs s' = area_abs s \<and> frames_abs s' = frames_abs s"
proof -
  from scan_tracks_Some [OF assms, of distance m r 0 False] obtain s1 f where
    sc: "scan_tracks distance m r 0 s False = Some (s1, f)" and inv1: "store_inv s1"
    and len1: "length (mean_buffer s1) = length (mean_buffer s)"
    and abs: "len_abs s1 = len_abs s" "area_abs s1 = area_abs s" "frames_abs s1 = frames_abs s"
    by blast
  from scan_tracks_flag [OF sc assms]
  have f: "f \<longleftrightarrow> (\<exists>i<length (mean_buffer s). near distance m r s i)" by simp
  show ?thesis
    using sc inv1 len1 abs f new_track_inv [OF inv1, of r]
    by (auto simp: associate_def new_track_def)
qed

lemma associate_nth:
  assumes "associate distance m r s = Some s'" "store_inv s" "i < length (mean_buffer s)"
  shows "frame_buffer s' ! i = (if near distance m r s i then frame_buffer s ! i + 1 else frame_buffer s ! i)
       \<and> seen s' ! i = (if near distance m r s i then 1 else seen s ! i)
       \<and> mean_buffer s' ! i = (if near distance m r s i then r_mean r else mean_buffer s ! i)
       \<and> len_buffer s' ! i = (if near distance m r s i then max (len_buffer s ! i) (r_length r) else len_buffer s ! i)
       \<and> area_buffer s' ! i = (if near distance m r s i then max (area_buffer s ! i) (r_area r) else area_buffer s ! i)"
proof -
  from scan_tracks_Some [OF assms(2), of distance m r 0 False] obtain s1 f where
    sc: "scan_tracks distance m r 0 s False = Some (s1, f)" and inv1: "store_inv s1"
    and len1: "length (mean_buffer s1) = length (mean_buffer s)"
    by blast
  have i1: "i < length (mean_buffer s1)" using len1 assms(3) by simp
  have s': "s' = (if \<not> f then new_track r s1 else s1)"
    using assms(1) sc by (simp add: associate_def)
  from scan_tracks_nth [OF sc assms(2,3)] new_track_nth [OF inv1 i1, of r] s'
  show ?thesis by (cases f) simp_all
qed

lemma associate_all_Some:
  assumes "store_inv s"
  shows "\<exists>s'. associate_all distance m rs s = Some s' \<and> store_inv s'
      \<and> length (mean_buffer s) \<le> length (mean_buffer s')
      \<and> len_abs s' = len_abs s \<and> area_abs s' = area_abs s \<and> frames_abs s' = frames_abs s"
  using assms
proof (induction rs arbitrary: s)
  case Nil
  then show ?case by simp
next
  case (Cons r rs)
  from associate_Some [OF Cons.prems, of distance m r] obtain s1 where
    a: "associate distance m r s = Some s1" and inv1: "store_inv s1"
    and len1: "length (mean_buffer s) \<le> length (mean_buffer s1)"
    and abs: "len_abs s1 = len_abs s" "area_abs s1 = area_abs s" "frames_abs s1 = frames_abs s"
    by (auto split: if_splits)
  from Cons.IH [OF inv1] a len1 abs show ?case by auto
qed

lemma associate_all_frames:
  assumes "store_inv s" "i < length (mean_buffer s)" "associate_all distance m rs s = Some s'"
  shows "i < length (frame_buffer s') \<and> frame_buffer s' ! i = frame_buffer s ! i + match_count distance m rs s i"
  using assms
proof (induction rs arbitrary: s)
  case Nil
  then show ?case by (simp add: store_inv_def)
next
  case (Cons r rs)
  from associate_Some [OF Cons.prems(1), of distance m r] obtain s1 where
    a: "associate distance m r s = Some s1" and inv1: "store_inv s1"
    and len1: "length (mean_buffer s) \<le> length (mean_buffer s1)"
    by (auto split: if_splits)
  have i1: "i < length (mean_buffer s1)" using len1 Cons.prems(2) by simp
  have rest: "associate_all distance m rs s1 = Some s'" using Cons.prems(3) a by simp
  from Cons.IH [OF inv1 i1 rest] associate_nth [OF a Cons.prems(1,2)] a
  show ?case by simp
qed

lemma reset_seen_inv: "store_inv s \<Longrightarrow> store_inv (reset_seen s)"
  by (simp add: store_inv_def reset_seen_def)

lemma finalize_char:
  assumes "store_inv s"
  shows "\<exists>s'. finalize opt s = Some s' \<and> store_inv s'
     \<and> len_buffer s' = nths (len_buffer s) {i. seen s ! i \<noteq> 0}
     \<and> area_buffer s' = nths (area_buffer s) {i. seen s ! i \<noteq> 0}
     \<and> frame_buffer s' = nths (frame_buffer s) {i. seen s ! i \<noteq> 0}
     \<and> mean_buffer s' = nths (mean_buffer s) {i. seen s ! i \<noteq> 0}
     \<and> seen s' = nths (seen s) {i. seen s ! i \<noteq> 0}
     \<and> frames_abs s' = frames_abs s @
          map (\<lambda>i. frame_buffer s ! i) (filter (\<lambda>i. framebuff opt < int (frame_buffer s ! i)) (unseen_idx s))
     \<and> len_abs s' = len_abs s @
          map (\<lambda>i. np_divide (len_buffer s ! i) (real_of_int (pix_per_cm opt)))
              (filter (\<lambda>i. framebuff opt < int (frame_buffer s ! i)) (unseen_idx s))
     \<and> area_abs s' = area_abs s @
          map (\<lambda>i. np_divide (real (area_buffer s ! i)) (real_of_int ((pix_per_cm opt)\<^sup>2)))
              (filter (\<lambda>i. framebuff opt < int (frame_buffer s ! i)) (unseen_idx s))"
proof -
  have rng: "\<forall>i\<in>set (unseen_idx s). i < length (mean_buffer s)"
    using assms by (simp add: set_unseen_idx store_inv_def)
  have eq: "\<And>xs::'a list. length xs = length (seen s) \<Longrightarrow>
      nths xs (- set (unseen_idx s)) = nths xs {i. seen s ! i \<noteq> 0}"
    unfolding nths_def
    by (rule arg_cong [where f = "map fst"], rule filter_cong) (auto simp: set_zip set_unseen_idx)
  have lens: "length (len_buffer s) = length (seen s)" "length (area_buffer s) = length (seen s)"
    "length (frame_buffer s) = length (seen s)" "length (mean_buffer s) = length (seen s)"
    using assms by (simp_all add: store_inv_def)
  from remove_loop_char [OF assms unseen_idx_sorted rng, of opt]
  show ?thesis unfolding finalize_def
    by (simp add: eq lens)
qed

lemma euclidean_less_numeral:
  "euclidean exact u v < numeral k \<longleftrightarrow>
     (fst u - fst v)\<^sup>2 + (snd u - snd v)\<^sup>2 < (numeral k)\<^sup>2"
  using euclidean_less_iff [of u v "numeral k"] by simp

lemmas run_simps = lifecycle_def finalize_def unseen_idx_def reset_seen_def associate_def
  scan_tracks.simps match_track_def new_track_def init_state_def finalize_track_def nth_opt_def del_def
  euclidean_less_numeral np_divide_def

lemma label_loop_inv:
  assumes "label_loop fp opt clusters labels s = Some s'" "store_inv s"
  shows "store_inv s' \<and> len_abs s' = len_abs s \<and> area_abs s' = area_abs s \<and> frames_abs s' = frames_abs s"
  using assms
proof (induction labels arbitrary: s)
  case Nil
  then show ?case by simp
next
  case (Cons lab labels)
  show ?case
  proof (cases "where_eq clusters lab = []")
    case True
    with Cons show ?thesis by simp
  next
    case False
    with Cons.prems(1) obtain r s1 where d: "describe fp clusters lab = Some r"
      and a: "associate (euclidean fp) (meanshift_length opt) r s = Some s1"
      and l: "label_loop fp opt clusters labels s1 = Some s'"
      by (auto simp: bind_eq_Some_conv)
    from associate_Some [OF Cons.prems(2), of "euclidean fp" "meanshift_length opt" r] a
    have "store_inv s1" "len_abs s1 = len_abs s" "area_abs s1 = area_abs s" "frames_abs s1 = frames_abs s"
      by simp_all
    with Cons.IH [OF l] show ?thesis by simp
  qed
qed

lemma lifecycle_Some:
  assumes "store_inv s"
  shows "\<exists>s'. lifecycle distance opt rs s = Some s' \<and> store_inv s'"
proof -
  from associate_all_Some [OF reset_seen_inv [OF assms], of distance "meanshift_length opt" rs]
  obtain s1 where a: "associate_all distance (meanshift_length opt) rs (reset_seen s) = Some s1"
    and inv1: "store_inv s1" by blast
  from finalize_char [OF inv1, of opt] a show ?thesis
    by (auto simp: lifecycle_def)
qed

lemma process_frame_unfold:
  "process_frame fp label4 label8 opt fgmask s =
     (case denoise label4 fgmask (denoise_thresh opt) of
        None \<Rightarrow> None
      | Some mask_proc \<Rightarrow>
          if all_zero mask_proc then Some s
          else (case remove_border_tracks (fst (label8 mask_proc)) of
                  None \<Rightarrow> None
                | Some clusters \<Rightarrow>
                    if all_zero clusters then Some s
                    else (case label_loop fp opt clusters [1..<snd (label8 mask_proc) + 1]
                                 (reset_seen s) of
                            None \<Rightarrow> None
                          | Some s1 \<Rightarrow> finalize opt s1)))"
  by (simp add: process_frame_def Let_def split: option.splits prod.splits)

lemma process_frame_cases:
  assumes "process_frame fp label4 label8 opt fgmask s = Some s'"
  shows "s' = s \<or> (\<exists>clusters labels s1.
           label_loop fp opt clusters labels (reset_seen s) = Some s1 \<and> finalize opt s1 = Some s')"
proof (cases "denoise label4 fgmask (denoise_thresh opt)")
  case None
  with assms show ?thesis by (simp add: process_frame_unfold)
next
  case (Some mask_proc)
  note d = this
  show ?thesis
  proof (cases "all_zero mask_proc")
    case True
    with assms d show ?thesis by (simp add: process_frame_unfold)
  next
    case nz: False
    show ?thesis
    proof (cases "remove_border_tracks (fst (label8 mask_proc))")
      case None
      with assms d nz show ?thesis by (simp add: process_frame_unfold)
    next
      case (Some clusters)
      note rb = this
      show ?thesis
      proof (cases "all_zero clusters")
        case True
        with assms d nz rb show ?thesis by (simp add: process_frame_unfold)
      next
        case False
        with assms d nz rb show ?thesis
          by (cases "label_loop fp opt clusters [1..<snd (label8 mask_proc) + 1] (reset_seen s)")
             (auto simp: process_frame_unfold)
      qed
    qed
  qed
qed

lemma process_frame_inv:
  assumes "process_frame fp label4 label8 opt fgmask s = Some s'" "store_inv s"
  shows "store_inv s'"
proof -
  from process_frame_cases [OF assms(1)] show ?thesis
  proof
    assume "s' = s"
    with assms(2) show ?thesis by simp
  next
    assume "\<exists>clusters labels s1.
           label_loop fp opt clusters labels (reset_seen s) = Some s1 \<and> finalize opt s1 = Some s'"
    then obtain clusters labels s1 where
      ll: "label_loop fp opt clusters labels (reset_seen s) = Some s1" and f: "finalize opt s1 = Some s'"
      by blast
    from label_loop_inv [OF ll reset_seen_inv [OF assms(2)]] have "store_inv s1" by simp
    from finalize_char [OF this, of opt] f show ?thesis by simp
  qed
qed

lemma main_loop_inv:
  assumes "main_loop fp label4 label8 opt masks s = Some s'" "store_inv s"
  shows "store_inv s'"
  using assms
proof (induction masks arbitrary: s)
  case Nil
  then show ?case by simp
next
  case (Cons fgmask masks)
  from Cons.prems(1) obtain s1 where p: "process_frame fp label4 label8 opt fgmask s = Some s1"
    and m: "main_loop fp label4 label8 opt masks s1 = Some s'"
    by (auto split: option.splits)
  from Cons.IH [OF m process_frame_inv [OF p Cons.prems(2)]] show ?case .
qed






section \<open>Lemmas on the image filters and the frame loop\<close>

lemma zero_label_map:
  "zero_label a (map (map (\<lambda>v. if v \<in> S then 0 else v)) img) =
     map (map (\<lambda>v. if v \<in> insert a S then 0 else v)) img"
  by (auto simp: zero_label_def)

lemma fold_zero_label_aux:
  "fold zero_label vals (map (map (\<lambda>v. if v \<in> S then 0 else v)) img) =
     map (map (\<lambda>v. if v \<in> S \<union> set vals then 0 else v)) img"
proof (induction vals arbitrary: S)
  case Nil
  then show ?case by simp
next
  case (Cons a vals)
  have "S \<union> set (a # vals) = insert a S \<union> set vals" by auto
  with Cons.IH [of "insert a S"] show ?case by (simp add: zero_label_map)
qed

lemma fold_zero_label:
  "fold zero_label vals img = map (map (\<lambda>v. if v \<in> set vals then 0 else v)) img"
  using fold_zero_label_aux [of vals "{}" img] by simp

lemma set_butlast_tl:
  "set (butlast (tl row)) = {row ! j | j. 0 < j \<and> Suc j < length row}"
proof -
  have nth: "\<And>k. Suc (Suc k) < length row \<Longrightarrow> butlast (tl row) ! k = row ! Suc k"
    by (simp add: nth_butlast nth_tl)
  have len: "length (butlast (tl row)) = length row - 2" by simp
  show ?thesis
  proof (intro set_eqI iffI)
    fix x assume "x \<in> set (butlast (tl row))"
    then obtain k where k: "k < length row - 2" and x: "x = butlast (tl row) ! k"
      unfolding in_set_conv_nth len by blast
    from k have "Suc (Suc k) < length row" by simp
    with nth [OF this] x show "x \<in> {row ! j | j. 0 < j \<and> Suc j < length row}"
      by (intro CollectI exI [of _ "Suc k"]) simp
  next
    fix x assume "x \<in> {row ! j | j. 0 < j \<and> Suc j < length row}"
    then obtain j where j: "0 < j" "Suc j < length row" and x: "x = row ! j" by blast
    from j obtain k where jk: "j = Suc k" by (cases j) auto
    with j have k: "Suc (Suc k) < length row" by simp
    then have "k < length (butlast (tl row))" unfolding len by simp
    moreover have "butlast (tl row) ! k = x" using nth [OF k] x jk by simp
    ultimately show "x \<in> set (butlast (tl row))" unfolding in_set_conv_nth by blast
  qed
qed

lemma touches_border_iff:
  "touches_border img v \<longleftrightarrow>
     (\<exists>i<length img. \<exists>j<length (img ! i).
        on_border (length img) (length (img ! i)) i j \<and> img ! i ! j = v)"
  by (simp add: touches_border_def Bex_def)

lemma touches_borderI:
  "i < length img \<Longrightarrow> j < length (img ! i) \<Longrightarrow>
   on_border (length img) (length (img ! i)) i j \<Longrightarrow> img ! i ! j = v \<Longrightarrow> touches_border img v"
  unfolding touches_border_iff by blast

lemma border_vals:
  assumes "img \<noteq> []" "\<forall>row\<in>set img. row \<noteq> []"
  shows "v \<in> set (nonzero_vals (map hd img) @ nonzero_vals (map last img) @
                    nonzero_vals (butlast (tl (hd img))) @ nonzero_vals (butlast (tl (last img))))
         \<longleftrightarrow> v \<noteq> 0 \<and> touches_border img v"
proof -
  have rows: "\<And>i. i < length img \<Longrightarrow> img ! i \<noteq> []" using assms(2) by simp
  have hd0: "hd img = img ! 0" using assms(1) by (simp add: hd_conv_nth)
  have lastn: "last img = img ! (length img - 1)" using assms(1) by (simp add: last_conv_nth)
  have lb: "v \<in> set (map hd img) \<longleftrightarrow> (\<exists>i<length img. img ! i ! 0 = v)"
  proof
    assume "v \<in> set (map hd img)"
    then obtain i where "i < length img" "v = hd (img ! i)"
      by (auto simp: in_set_conv_nth)
    with rows [of i] show "\<exists>i<length img. img ! i ! 0 = v"
      by (intro exI [of _ i]) (simp add: hd_conv_nth)
  next
    assume "\<exists>i<length img. img ! i ! 0 = v"
    then obtain i where i: "i < length img" "img ! i ! 0 = v" by blast
    with rows [of i] have "v = hd (img ! i)" by (simp add: hd_conv_nth)
    with i(1) show "v \<in> set (map hd img)" by simp
  qed
  have rb: "v \<in> set (map last img) \<longleftrightarrow> (\<exists>i<length img. img ! i ! (length (img ! i) - 1) = v)"
  proof
    assume "v \<in> set (map last img)"
    then obtain i where "i < length img" "v = last (img ! i)"
      by (auto simp: in_set_conv_nth)
    with rows [of i] show "\<exists>i<length img. img ! i ! (length (img ! i) - 1) = v"
      by (intro exI [of _ i]) (simp add: last_conv_nth)
  next
    assume "\<exists>i<length img. img ! i ! (length (img ! i) - 1) = v"
    then obtain i where i: "i < length img" "img ! i ! (length (img ! i) - 1) = v" by blast
    with rows [of i] have "v = last (img ! i)" by (simp add: last_conv_nth)
    with i(1) show "v \<in> set (map last img)" by simp
  qed
  have tb: "v \<in> set (butlast (tl (hd img))) \<longleftrightarrow>
      (\<exists>j. 0 < j \<and> Suc j < length (img ! 0) \<and> img ! 0 ! j = v)"
    unfolding hd0 set_butlast_tl by auto
  have bb: "v \<in> set (butlast (tl (last img))) \<longleftrightarrow>
      (\<exists>j. 0 < j \<and> Suc j < length (img ! (length img - 1)) \<and> img ! (length img - 1) ! j = v)"
    unfolding lastn set_butlast_tl by auto
  have "touches_border img v \<longleftrightarrow>
     (\<exists>i<length img. img ! i ! 0 = v) \<or>
     (\<exists>i<length img. img ! i ! (length (img ! i) - 1) = v) \<or>
     (\<exists>j. 0 < j \<and> Suc j < length (img ! 0) \<and> img ! 0 ! j = v) \<or>
     (\<exists>j. 0 < j \<and> Suc j < length (img ! (length img - 1)) \<and> img ! (length img - 1) ! j = v)"
    (is "?L \<longleftrightarrow> ?A \<or> ?B \<or> ?C \<or> ?D")
  proof
    assume ?L
    then obtain i j where i: "i < length img" and j: "j < length (img ! i)"
      and b: "on_border (length img) (length (img ! i)) i j" and v: "img ! i ! j = v"
      unfolding touches_border_iff by blast
    show "?A \<or> ?B \<or> ?C \<or> ?D"
    proof (cases "j = 0 \<or> Suc j = length (img ! i)")
      case True
      then show ?thesis
      proof
        assume "j = 0" with i v show ?thesis by blast
      next
        assume "Suc j = length (img ! i)"
        then have "j = length (img ! i) - 1" by simp
        with i v show ?thesis by blast
      qed
    next
      case False
      then have mid: "0 < j" "Suc j < length (img ! i)" using j by auto
      from b False have "i = 0 \<or> Suc i = length img" by (simp add: on_border_def)
      then show ?thesis
      proof
        assume "i = 0" with mid v show ?thesis by blast
      next
        assume "Suc i = length img"
        then have "i = length img - 1" by simp
        with mid v show ?thesis by blast
      qed
    qed
  next
    have n0: "0 < length img" using assms(1) by simp
    assume "?A \<or> ?B \<or> ?C \<or> ?D"
    then show ?L
    proof (elim disjE exE conjE)
      fix i assume "i < length img" "img ! i ! 0 = v"
      with rows [of i] show ?L
        by (intro touches_borderI [of i img 0]) (simp_all add: on_border_def)
    next
      fix i assume i: "i < length img" "img ! i ! (length (img ! i) - 1) = v"
      with rows [of i] show ?L
        by (intro touches_borderI [of i img "length (img ! i) - 1"]) (simp_all add: on_border_def)
    next
      fix j assume "0 < j" "Suc j < length (img ! 0)" "img ! 0 ! j = v"
      with n0 show ?L
        by (intro touches_borderI [of 0 img j]) (simp_all add: on_border_def)
    next
      fix j assume "0 < j" "Suc j < length (img ! (length img - 1))"
        "img ! (length img - 1) ! j = v"
      with n0 show ?L
        by (intro touches_borderI [of "length img - 1" img j]) (simp_all add: on_border_def)
    qed
  qed
  with lb rb tb bb show ?thesis
    by (auto simp: nonzero_vals_def)
qed

lemma fold_max_ge: "(a::nat) \<le> fold max xs a \<and> (\<forall>x\<in>set xs. x \<le> fold max xs a)"
proof (induction xs arbitrary: a)
  case Nil
  then show ?case by simp
next
  case (Cons y ys)
  from Cons.IH [of "max y a"] show ?case by auto
qed

lemma bincount_length: "x \<in> set xs \<Longrightarrow> x < length (bincount xs)"
  using fold_max_ge [of 0 xs] by (auto simp: bincount_def less_Suc_eq_le)

lemma bincount_nth: "k < length (bincount xs) \<Longrightarrow> bincount xs ! k = count_list xs k"
  by (auto simp: bincount_def nth_map_upt simp del: upt_Suc split: if_splits)

lemma noise_idx_iff:
  assumes "l \<in> set xs"
  shows "l \<in> set (filter (\<lambda>k. int (bincount xs ! k) \<le> nthresh) [0..<length (bincount xs)])
         \<longleftrightarrow> int (count_list xs l) \<le> nthresh"
  using bincount_length [OF assms] by (simp add: bincount_nth)

lemma reshape_rows:
  assumes "\<forall>row\<in>set rows. length row = w"
  shows "map (\<lambda>i. take w (drop (i * w) (concat rows))) [0..<length rows] = rows"
  using assms
proof (induction rows)
  case Nil
  then show ?case by simp
next
  case (Cons r rows)
  have r: "length r = w" using Cons.prems by simp
  have "[0..<length (r # rows)] = 0 # map Suc [0..<length rows]"
    by (simp add: upt_conv_Cons map_Suc_upt del: upt_Suc)
  then have "map (\<lambda>i. take w (drop (i * w) (concat (r # rows)))) [0..<length (r # rows)] =
     take w (r @ concat rows) #
     map (\<lambda>i. take w (drop (Suc i * w) (r @ concat rows))) [0..<length rows]"
    by (simp add: comp_def)
  also have "take w (r @ concat rows) = r" using r by simp
  also have "map (\<lambda>i. take w (drop (Suc i * w) (r @ concat rows))) [0..<length rows] =
     map (\<lambda>i. take w (drop (i * w) (concat rows))) [0..<length rows]"
    using r by (simp add: add.commute)
  also have "\<dots> = rows" using Cons by simp
  finally show ?case .
qed

lemma length_concat_rows:
  assumes "\<forall>row\<in>set rows. length row = w"
  shows "length (concat rows) = length rows * w"
  using assms by (induction rows) simp_all

lemma reshape_concat:
  assumes "\<forall>row\<in>set rows. length row = w"
  shows "reshape (concat (map (map f) rows)) (length rows, w) = Some (map (map f) rows)"
proof -
  have a: "\<forall>row\<in>set (map (map f) rows). length row = w" using assms by simp
  from reshape_rows [OF a] length_concat_rows [OF a] show ?thesis
    by (simp add: reshape_def)
qed

lemma rect_rows: "rect img \<Longrightarrow> \<forall>row\<in>set img. length row = snd (shape img)"
  by (simp add: rect_def list_all_iff)

lemma process_frame_skipped:
  assumes "skipped label4 label8 opt fgmask"
  shows "process_frame fp label4 label8 opt fgmask s = Some s"
  using assms unfolding skipped_def process_frame_unfold
  by (auto split: option.splits)

lemma finalize_no_unseen:
  assumes "finalize opt s = Some s'" "store_inv s"
  shows "0 \<notin> set (seen s')"
proof -
  from finalize_char [OF assms(2), of opt] assms(1)
  have "seen s' = nths (seen s) {i. seen s ! i \<noteq> 0}" by simp
  then show ?thesis by (auto simp: set_nths)
qed

lemma process_frame_seen:
  assumes "process_frame fp label4 label8 opt fgmask s = Some s'" "store_inv s" "0 \<notin> set (seen s)"
  shows "0 \<notin> set (seen s')"
proof -
  from process_frame_cases [OF assms(1)] show ?thesis
  proof
    assume "s' = s"
    with assms(3) show ?thesis by simp
  next
    assume "\<exists>clusters labels s1.
           label_loop fp opt clusters labels (reset_seen s) = Some s1 \<and> finalize opt s1 = Some s'"
    then obtain clusters labels s1 where
      ll: "label_loop fp opt clusters labels (reset_seen s) = Some s1" and f: "finalize opt s1 = Some s'"
      by blast
    from label_loop_inv [OF ll reset_seen_inv [OF assms(2)]] have "store_inv s1" by simp
    from finalize_no_unseen [OF f this] show ?thesis .
  qed
qed

lemma main_loop_seen:
  assumes "main_loop fp label4 label8 opt masks s = Some s'" "store_inv s" "0 \<notin> set (seen s)"
  shows "0 \<notin> set (seen s')"
  using assms
proof (induction masks arbitrary: s)
  case Nil
  then show ?case by simp
next
  case (Cons fgmask masks)
  from Cons.prems(1) obtain s1 where p: "process_frame fp label4 label8 opt fgmask s = Some s1"
    and m: "main_loop fp label4 label8 opt masks s1 = Some s'"
    by (auto split: option.splits)
  from Cons.IH [OF m process_frame_inv [OF p Cons.prems(2)]
      process_frame_seen [OF p Cons.prems(2,3)]]
  show ?case .
qed

text \<open>The label loop is the association of the regions that \<^const>\<open>regions_of\<close> lists, and
  a frame that is not skipped is one \<^const>\<open>lifecycle\<close> step over them.\<close>

lemma where_eq_mem:
  assumes "where_eq clusters lab \<noteq> []"
  shows "lab \<in> set (concat clusters)"
proof -
  from assms obtain i row where ir: "(i, row) \<in> set (enumerate 0 clusters)"
    and ne: "filter (\<lambda>j. row ! j = lab) [0..<length row] \<noteq> []"
    by (auto simp: where_eq_def)
  from ne obtain j where "j < length row" "row ! j = lab"
    by (auto simp: filter_empty_conv)
  then have "lab \<in> set row" by auto
  moreover from ir have "row \<in> set clusters" by (auto simp: in_set_enumerate_eq)
  ultimately show ?thesis by auto
qed

lemma describe_Some:
  assumes "where_eq clusters lab \<noteq> []"
  shows "\<exists>r. describe fp clusters lab = Some r"
  using assms bincount_length [OF where_eq_mem [OF assms]]
  by (simp add: describe_def get_length_def get_area_def nth_opt_def Let_def)

lemma label_loop_associate_all:
  "label_loop fp opt clusters labels s =
     associate_all (euclidean fp) (meanshift_length opt) (regions_of fp clusters labels) s"
proof (induction labels arbitrary: s)
  case Nil
  then show ?case by (simp add: regions_of_def)
next
  case (Cons lab labels)
  show ?case
  proof (cases "where_eq clusters lab = []")
    case True
    with Cons.IH show ?thesis by (simp add: regions_of_def)
  next
    case False
    from describe_Some [OF this] obtain r where r: "describe fp clusters lab = Some r" by blast
    have reg: "regions_of fp clusters (lab # labels) = r # regions_of fp clusters labels"
      using False r by (simp add: regions_of_def)
    show ?thesis
      unfolding reg using False r Cons.IH
      by (cases "associate (euclidean fp) (meanshift_length opt) r s") simp_all
  qed
qed

lemma process_frame_lifecycle:
  assumes "denoise label4 fgmask (denoise_thresh opt) = Some mask_proc" "\<not> all_zero mask_proc"
    and "remove_border_tracks (fst (label8 mask_proc)) = Some clusters" "\<not> all_zero clusters"
  shows "process_frame fp label4 label8 opt fgmask s =
     lifecycle (euclidean fp) opt (regions_of fp clusters [1..<snd (label8 mask_proc) + 1]) s"
  using assms
  by (simp add: process_frame_unfold lifecycle_def label_loop_associate_all)

lemmas frame_simps = process_frame_unfold denoise_def bincount_def reshape_def shape_def all_zero_def
     remove_border_tracks_def nonzero_vals_def zero_label_def where_eq_def describe_def
     get_length_def get_area_def nth_opt_def exact_def enumerate_eq_zip

section \<open>The claims\<close>

subsection \<open>C1: which tracks a region updates\<close>

text \<open>
  Claim C1 says that a region updates exactly one track, the first live track whose centroid is
  within the threshold. The scan of lines 140 to 151 has no \<^verbatim>\<open>break\<close>: with two tracks at
  \<open>(0, 0)\<close> and \<open>(3, 4)\<close> and a region at \<open>(0, 0)\<close>, both tracks are updated. The two
  distances are 0 and 5, in doubles as in the reals.
\<close>

theorem first_match_only_counterexample:
  "associate (euclidean exact) 25 \<lparr>r_mean = (0, 0), r_length = 7, r_area = 9\<rparr>
     \<lparr>len_abs = [], area_abs = [], frames_abs = [], len_buffer = [1, 1], area_buffer = [1, 1],
      frame_buffer = [1, 1], mean_buffer = [(0, 0), (3, 4)], seen = [0, 0]\<rparr>
   = Some \<lparr>len_abs = [], area_abs = [], frames_abs = [], len_buffer = [7, 7],
      area_buffer = [9, 9], frame_buffer = [2, 2], mean_buffer = [(0, 0), (0, 0)],
      seen = [1, 1]\<rparr>"
  by (simp add: associate_def scan_tracks.simps match_track_def euclidean_less_numeral)

text \<open>
  C1 as the code has it: the region updates every track of the store for which the distance
  that \<^verbatim>\<open>distance.euclidean\<close> returns, from the stored centroid to the centroid of the region,
  is strictly below \<^verbatim>\<open>meanshift_length\<close> (frame count plus one, seen, centroid overwritten,
  length and area raised to the maximum), and leaves every other track as it was. The theorem
  holds for every function \<open>distance\<close>, so for the one that scipy computes in doubles.
\<close>

theorem associate_updates_every_near_track:
  assumes "store_inv s"
  shows "\<exists>s'. associate distance m r s = Some s' \<and>
     (\<forall>i<length (mean_buffer s).
        if near distance m r s i
        then frame_buffer s' ! i = frame_buffer s ! i + 1 \<and> seen s' ! i = 1 \<and>
             mean_buffer s' ! i = r_mean r \<and>
             len_buffer s' ! i = max (len_buffer s ! i) (r_length r) \<and>
             area_buffer s' ! i = max (area_buffer s ! i) (r_area r)
        else frame_buffer s' ! i = frame_buffer s ! i \<and> seen s' ! i = seen s ! i \<and>
             mean_buffer s' ! i = mean_buffer s ! i \<and>
             len_buffer s' ! i = len_buffer s ! i \<and>
             area_buffer s' ! i = area_buffer s ! i)"
proof -
  from associate_Some [OF assms, of distance m r] obtain s' where a: "associate distance m r s = Some s'"
    by blast
  show ?thesis
  proof (intro exI conjI allI impI)
    show "associate distance m r s = Some s'" by (rule a)
  next
    fix i assume "i < length (mean_buffer s)"
    from associate_nth [OF a assms this]
    show "if near distance m r s i
        then frame_buffer s' ! i = frame_buffer s ! i + 1 \<and> seen s' ! i = 1 \<and>
             mean_buffer s' ! i = r_mean r \<and>
             len_buffer s' ! i = max (len_buffer s ! i) (r_length r) \<and>
             area_buffer s' ! i = max (area_buffer s ! i) (r_area r)
        else frame_buffer s' ! i = frame_buffer s ! i \<and> seen s' ! i = seen s ! i \<and>
             mean_buffer s' ! i = mean_buffer s ! i \<and>
             len_buffer s' ! i = len_buffer s ! i \<and>
             area_buffer s' ! i = area_buffer s ! i"
      by simp
  qed
qed

theorem associate_updates_every_near_track_witness:
  "store_inv \<lparr>len_abs = [], area_abs = [], frames_abs = [], len_buffer = [10, 3, 8],
      area_buffer = [4, 20, 6], frame_buffer = [1, 4, 2],
      mean_buffer = [(0, 0), (3, 4), (60, 80)], seen = [0, 0, 0]\<rparr> \<and>
   associate (euclidean exact) 25 \<lparr>r_mean = (0, 0), r_length = 7, r_area = 9\<rparr>
     \<lparr>len_abs = [], area_abs = [], frames_abs = [], len_buffer = [10, 3, 8],
      area_buffer = [4, 20, 6], frame_buffer = [1, 4, 2],
      mean_buffer = [(0, 0), (3, 4), (60, 80)], seen = [0, 0, 0]\<rparr>
   = Some \<lparr>len_abs = [], area_abs = [], frames_abs = [], len_buffer = [10, 7, 8],
      area_buffer = [9, 20, 6], frame_buffer = [2, 5, 2],
      mean_buffer = [(0, 0), (0, 0), (60, 80)], seen = [1, 1, 0]\<rparr>"
proof -
  have h: "store_inv \<lparr>len_abs = [], area_abs = [], frames_abs = [], len_buffer = [10, 3, 8],
      area_buffer = [4, 20, 6], frame_buffer = [1, 4, 2],
      mean_buffer = [(0, 0), (3, 4), (60, 80)], seen = [0, 0, 0]\<rparr>"
    by (simp add: store_inv_def)
  from associate_updates_every_near_track [OF h, of "euclidean exact" 25
      "\<lparr>r_mean = (0, 0), r_length = 7, r_area = 9\<rparr>"]
  show ?thesis using h by (simp add: run_simps)
qed

subsection \<open>C2: what \<^verbatim>\<open>frame_buffer\<close> counts\<close>

text \<open>
  Claim C2 says that the frame count of a track is the number of distinct frames in which it
  was matched, so that it grows by at most one in a frame. A track created in a first frame and
  matched by two regions of the second frame has the count 3 after two frames. The distances
  are 0 and 1, in doubles as in the reals.
\<close>

theorem frames_seen_once_per_frame_counterexample:
  "map_option frame_buffer
     (run_frames (euclidean exact) \<lparr>framebuff = 1, meanshift_length = 25, denoise_thresh = 500, pix_per_cm = 120\<rparr>
        [[\<lparr>r_mean = (0, 0), r_length = 5, r_area = 600\<rparr>],
         [\<lparr>r_mean = (0, 0), r_length = 5, r_area = 600\<rparr>,
          \<lparr>r_mean = (1, 0), r_length = 5, r_area = 600\<rparr>]]
        init_state) = Some [3]"
  by (simp add: run_simps)

text \<open>
  C2 as the code has it: over the regions of one frame, the frame count of a track of the store
  grows by the number of regions that pass the test of line 142 against it, each tested against
  the centroid that the regions before it left; it is incremented once for each matching
  region. The test is taken on the distance that \<open>distance\<close> returns, whatever that function
  is.
\<close>

theorem frames_seen_counts_matching_regions:
  assumes "store_inv s" and "i < length (mean_buffer s)"
  shows "\<exists>s'. associate_all distance m rs (reset_seen s) = Some s' \<and> i < length (frame_buffer s') \<and>
           frame_buffer s' ! i = frame_buffer s ! i + match_count distance m rs (reset_seen s) i"
proof -
  have inv: "store_inv (reset_seen s)" using assms(1) by (rule reset_seen_inv)
  have i: "i < length (mean_buffer (reset_seen s))" using assms(2) by (simp add: reset_seen_def)
  from associate_all_Some [OF inv, of distance m rs] obtain s' where
    a: "associate_all distance m rs (reset_seen s) = Some s'" by blast
  from associate_all_frames [OF inv i a] a show ?thesis
    by (simp add: reset_seen_def)
qed

theorem frames_seen_counts_matching_regions_witness:
  "store_inv \<lparr>len_abs = [], area_abs = [], frames_abs = [], len_buffer = [5],
      area_buffer = [600], frame_buffer = [1], mean_buffer = [(0, 0)], seen = [1]\<rparr> \<and>
   (0::nat) < length [(0::real, 0::real)] \<and>
   map_option frame_buffer (associate_all (euclidean exact) 25
     [\<lparr>r_mean = (0, 0), r_length = 5, r_area = 600\<rparr>,
      \<lparr>r_mean = (1, 0), r_length = 5, r_area = 600\<rparr>]
     (reset_seen \<lparr>len_abs = [], area_abs = [], frames_abs = [], len_buffer = [5],
      area_buffer = [600], frame_buffer = [1], mean_buffer = [(0, 0)], seen = [1]\<rparr>))
   = Some [3]"
proof -
  have h: "store_inv \<lparr>len_abs = [], area_abs = [], frames_abs = [], len_buffer = [5],
      area_buffer = [600], frame_buffer = [1], mean_buffer = [(0, 0)], seen = [1]\<rparr>"
    by (simp add: store_inv_def)
  have i: "0 < length (mean_buffer \<lparr>len_abs = [], area_abs = [], frames_abs = [],
      len_buffer = [5], area_buffer = [600], frame_buffer = [1], mean_buffer = [(0, 0)],
      seen = [1]\<rparr>)"
    by simp
  from frames_seen_counts_matching_regions [OF h i, of "euclidean exact" 25
      "[\<lparr>r_mean = (0, 0), r_length = 5, r_area = 600\<rparr>,
        \<lparr>r_mean = (1, 0), r_length = 5, r_area = 600\<rparr>]"]
  show ?thesis using h by (simp add: run_simps near_def)
qed

subsection \<open>C3: unseen tracks leave the store, long ones leave a record\<close>



subsection \<open>C6: the five buffers have one length\<close>

text \<open>
  Claim C6: when the five track buffers have one length, they still have one length after the
  five appends of a new track (one more), after the five deletions of an index (one less),
  after the whole processing of a frame, which always returns, and after any run of the frame
  loop.
\<close>

theorem parallel_buffers_same_length:
  assumes "store_inv s"
  shows "store_inv (new_track r s) \<and>
     length (mean_buffer (new_track r s)) = Suc (length (mean_buffer s)) \<and>
     (\<forall>idx<length (mean_buffer s). \<exists>s'. finalize_track opt idx s = Some s' \<and> store_inv s' \<and>
         length (mean_buffer s') = length (mean_buffer s) - 1) \<and>
     (\<exists>s'. lifecycle distance opt rs s = Some s' \<and> store_inv s') \<and>
     (\<forall>s'. main_loop fp label4 label8 opt masks s = Some s' \<longrightarrow> store_inv s')"
proof (intro conjI allI impI)
  show "store_inv (new_track r s)" using assms by (rule new_track_inv)
  show "length (mean_buffer (new_track r s)) = Suc (length (mean_buffer s))"
    by (simp add: new_track_def)
  show "\<exists>s'. lifecycle distance opt rs s = Some s' \<and> store_inv s'" using assms by (rule lifecycle_Some)
next
  fix idx assume "idx < length (mean_buffer s)"
  from finalize_track_char [OF assms this, of opt]
  show "\<exists>s'. finalize_track opt idx s = Some s' \<and> store_inv s' \<and>
         length (mean_buffer s') = length (mean_buffer s) - 1" by blast
next
  fix s' assume "main_loop fp label4 label8 opt masks s = Some s'"
  then show "store_inv s'" using assms by (rule main_loop_inv)
qed

theorem parallel_buffers_same_length_witness:
  "store_inv \<lparr>len_abs = [], area_abs = [], frames_abs = [], len_buffer = [5, 6],
      area_buffer = [600, 700], frame_buffer = [1, 2], mean_buffer = [(0, 0), (60, 80)],
      seen = [1, 0]\<rparr> \<and>
   store_inv (new_track \<lparr>r_mean = (0, 0), r_length = 7, r_area = 9\<rparr>
     \<lparr>len_abs = [], area_abs = [], frames_abs = [], len_buffer = [5, 6],
      area_buffer = [600, 700], frame_buffer = [1, 2], mean_buffer = [(0, 0), (60, 80)],
      seen = [1, 0]\<rparr>) \<and>
   (\<exists>s'. finalize_track \<lparr>framebuff = 1, meanshift_length = 25, denoise_thresh = 500, pix_per_cm = 120\<rparr> 1
      \<lparr>len_abs = [], area_abs = [], frames_abs = [], len_buffer = [5, 6],
      area_buffer = [600, 700], frame_buffer = [1, 2], mean_buffer = [(0, 0), (60, 80)],
      seen = [1, 0]\<rparr> = Some s' \<and> store_inv s' \<and> length (mean_buffer s') = 1) \<and>
   (\<exists>s'. lifecycle (euclidean exact) \<lparr>framebuff = 1, meanshift_length = 25, denoise_thresh = 500, pix_per_cm = 120\<rparr>
      [\<lparr>r_mean = (0, 0), r_length = 7, r_area = 9\<rparr>]
      \<lparr>len_abs = [], area_abs = [], frames_abs = [], len_buffer = [5, 6],
      area_buffer = [600, 700], frame_buffer = [1, 2], mean_buffer = [(0, 0), (60, 80)],
      seen = [1, 0]\<rparr> = Some s' \<and> store_inv s') \<and>
   (\<exists>s'. main_loop exact (\<lambda>img. (img, 0)) (\<lambda>img. (img, 0))
      \<lparr>framebuff = 1, meanshift_length = 25, denoise_thresh = 500, pix_per_cm = 120\<rparr> []
      \<lparr>len_abs = [], area_abs = [], frames_abs = [], len_buffer = [5, 6],
      area_buffer = [600, 700], frame_buffer = [1, 2], mean_buffer = [(0, 0), (60, 80)],
      seen = [1, 0]\<rparr> = Some s' \<and> store_inv s')"
proof -
  have h: "store_inv \<lparr>len_abs = [], area_abs = [], frames_abs = [], len_buffer = [5, 6],
      area_buffer = [600, 700], frame_buffer = [1, 2], mean_buffer = [(0, 0), (60, 80)],
      seen = [1, 0]\<rparr>"
    by (simp add: store_inv_def)
  note t = parallel_buffers_same_length [OF h,
      of "\<lparr>r_mean = (0, 0), r_length = 7, r_area = 9\<rparr>"
         "\<lparr>framebuff = 1, meanshift_length = 25, denoise_thresh = 500, pix_per_cm = 120\<rparr>"
         "euclidean exact" "[\<lparr>r_mean = (0, 0), r_length = 7, r_area = 9\<rparr>]"
         exact "\<lambda>img. (img, 0)" "\<lambda>img. (img, 0)" "[]"]
  from t have a: "store_inv (new_track \<lparr>r_mean = (0, 0), r_length = 7, r_area = 9\<rparr>
     \<lparr>len_abs = [], area_abs = [], frames_abs = [], len_buffer = [5, 6],
      area_buffer = [600, 700], frame_buffer = [1, 2], mean_buffer = [(0, 0), (60, 80)],
      seen = [1, 0]\<rparr>)"
    by (rule conjunct1)
  from t have "\<forall>idx<length (mean_buffer \<lparr>len_abs = [], area_abs = [], frames_abs = [], len_buffer = [5, 6],
      area_buffer = [600, 700], frame_buffer = [1, 2], mean_buffer = [(0, 0), (60, 80)],
      seen = [1, 0]\<rparr>).
      \<exists>s'. finalize_track \<lparr>framebuff = 1, meanshift_length = 25, denoise_thresh = 500, pix_per_cm = 120\<rparr> idx
      \<lparr>len_abs = [], area_abs = [], frames_abs = [], len_buffer = [5, 6],
      area_buffer = [600, 700], frame_buffer = [1, 2], mean_buffer = [(0, 0), (60, 80)],
      seen = [1, 0]\<rparr> = Some s' \<and> store_inv s' \<and> length (mean_buffer s') = length (mean_buffer
      \<lparr>len_abs = [], area_abs = [], frames_abs = [], len_buffer = [5, 6],
      area_buffer = [600, 700], frame_buffer = [1, 2], mean_buffer = [(0, 0), (60, 80)],
      seen = [1, 0]\<rparr>) - 1"
    by blast
  then have b: "\<exists>s'. finalize_track \<lparr>framebuff = 1, meanshift_length = 25, denoise_thresh = 500, pix_per_cm = 120\<rparr> 1
      \<lparr>len_abs = [], area_abs = [], frames_abs = [], len_buffer = [5, 6],
      area_buffer = [600, 700], frame_buffer = [1, 2], mean_buffer = [(0, 0), (60, 80)],
      seen = [1, 0]\<rparr> = Some s' \<and> store_inv s' \<and> length (mean_buffer s') = 1"
    by simp
  from t have c: "\<exists>s'. lifecycle (euclidean exact) \<lparr>framebuff = 1, meanshift_length = 25, denoise_thresh = 500, pix_per_cm = 120\<rparr>
      [\<lparr>r_mean = (0, 0), r_length = 7, r_area = 9\<rparr>]
      \<lparr>len_abs = [], area_abs = [], frames_abs = [], len_buffer = [5, 6],
      area_buffer = [600, 700], frame_buffer = [1, 2], mean_buffer = [(0, 0), (60, 80)],
      seen = [1, 0]\<rparr> = Some s' \<and> store_inv s'"
    by blast
  from h have d: "\<exists>s'. main_loop exact (\<lambda>img. (img, 0)) (\<lambda>img. (img, 0))
      \<lparr>framebuff = 1, meanshift_length = 25, denoise_thresh = 500, pix_per_cm = 120\<rparr> []
      \<lparr>len_abs = [], area_abs = [], frames_abs = [], len_buffer = [5, 6],
      area_buffer = [600, 700], frame_buffer = [1, 2], mean_buffer = [(0, 0), (60, 80)],
      seen = [1, 0]\<rparr> = Some s' \<and> store_inv s'"
    by simp
  from h a b c d show ?thesis by (intro conjI)
qed

subsection \<open>C7: removal by descending index\<close>

text \<open>
  Claim C7: the indices of the unseen tracks are visited in strictly descending order, and the
  removal loop run over any strictly descending list of valid indices returns and leaves in
  each of the five buffers exactly the entries at the other positions, in their order: every
  surviving track keeps its centroid, length, area, frame count and flag.
\<close>

theorem batch_removal_descending_keeps_survivors:
  assumes "store_inv s" and "sorted_wrt (>) idxs" and "\<forall>i\<in>set idxs. i < length (mean_buffer s)"
  shows "sorted_wrt (>) (unseen_idx s) \<and>
     (\<exists>s'. remove_loop opt idxs s = Some s' \<and>
        mean_buffer s' = nths (mean_buffer s) (- set idxs) \<and>
        len_buffer s' = nths (len_buffer s) (- set idxs) \<and>
        area_buffer s' = nths (area_buffer s) (- set idxs) \<and>
        frame_buffer s' = nths (frame_buffer s) (- set idxs) \<and>
        seen s' = nths (seen s) (- set idxs))"
proof
  show "sorted_wrt (>) (unseen_idx s)" by (rule unseen_idx_sorted)
  from remove_loop_char [OF assms, of opt]
  show "\<exists>s'. remove_loop opt idxs s = Some s' \<and>
        mean_buffer s' = nths (mean_buffer s) (- set idxs) \<and>
        len_buffer s' = nths (len_buffer s) (- set idxs) \<and>
        area_buffer s' = nths (area_buffer s) (- set idxs) \<and>
        frame_buffer s' = nths (frame_buffer s) (- set idxs) \<and>
        seen s' = nths (seen s) (- set idxs)" by blast
qed

theorem batch_removal_descending_keeps_survivors_witness:
  "store_inv \<lparr>len_abs = [], area_abs = [], frames_abs = [], len_buffer = [10, 11, 12, 13, 14],
      area_buffer = [20, 21, 22, 23, 24], frame_buffer = [1, 1, 3, 1, 1],
      mean_buffer = [(0, 0), (1, 1), (2, 2), (3, 3), (4, 4)], seen = [1, 0, 1, 0, 0]\<rparr> \<and>
   sorted_wrt (>) [4, 3, 1 :: nat] \<and>
   remove_loop \<lparr>framebuff = 1, meanshift_length = 25, denoise_thresh = 500, pix_per_cm = 120\<rparr> [4, 3, 1]
     \<lparr>len_abs = [], area_abs = [], frames_abs = [], len_buffer = [10, 11, 12, 13, 14],
      area_buffer = [20, 21, 22, 23, 24], frame_buffer = [1, 1, 3, 1, 1],
      mean_buffer = [(0, 0), (1, 1), (2, 2), (3, 3), (4, 4)], seen = [1, 0, 1, 0, 0]\<rparr>
   = Some \<lparr>len_abs = [], area_abs = [], frames_abs = [], len_buffer = [10, 12],
      area_buffer = [20, 22], frame_buffer = [1, 3], mean_buffer = [(0, 0), (2, 2)],
      seen = [1, 1]\<rparr>"
proof -
  have h: "store_inv \<lparr>len_abs = [], area_abs = [], frames_abs = [],
      len_buffer = [10, 11, 12, 13, 14], area_buffer = [20, 21, 22, 23, 24],
      frame_buffer = [1, 1, 3, 1, 1], mean_buffer = [(0, 0), (1, 1), (2, 2), (3, 3), (4, 4)],
      seen = [1, 0, 1, 0, 0]\<rparr>"
    by (simp add: store_inv_def)
  have d: "sorted_wrt (>) [4, 3, 1 :: nat]" by simp
  have r: "\<forall>i\<in>set [4, 3, 1 :: nat]. i < length (mean_buffer \<lparr>len_abs = [], area_abs = [],
      frames_abs = [], len_buffer = [10, 11, 12, 13, 14], area_buffer = [20, 21, 22, 23, 24],
      frame_buffer = [1, 1, 3, 1, 1], mean_buffer = [(0, 0), (1, 1), (2, 2), (3, 3), (4, 4)],
      seen = [1, 0, 1, 0, 0]\<rparr>)"
    by simp
  have e: "remove_loop \<lparr>framebuff = 1, meanshift_length = 25, denoise_thresh = 500, pix_per_cm = 120\<rparr> [4, 3, 1]
     \<lparr>len_abs = [], area_abs = [], frames_abs = [], len_buffer = [10, 11, 12, 13, 14],
      area_buffer = [20, 21, 22, 23, 24], frame_buffer = [1, 1, 3, 1, 1],
      mean_buffer = [(0, 0), (1, 1), (2, 2), (3, 3), (4, 4)], seen = [1, 0, 1, 0, 0]\<rparr>
   = Some \<lparr>len_abs = [], area_abs = [], frames_abs = [], len_buffer = [10, 12],
      area_buffer = [20, 22], frame_buffer = [1, 3], mean_buffer = [(0, 0), (2, 2)],
      seen = [1, 1]\<rparr>"
    by (simp add: run_simps)
  from batch_removal_descending_keeps_survivors [OF h d r, of "\<lparr>framebuff = 1, meanshift_length = 25, denoise_thresh = 500, pix_per_cm = 120\<rparr>"]
  obtain s' where "remove_loop \<lparr>framebuff = 1, meanshift_length = 25, denoise_thresh = 500, pix_per_cm = 120\<rparr> [4, 3, 1]
     \<lparr>len_abs = [], area_abs = [], frames_abs = [], len_buffer = [10, 11, 12, 13, 14],
      area_buffer = [20, 21, 22, 23, 24], frame_buffer = [1, 1, 3, 1, 1],
      mean_buffer = [(0, 0), (1, 1), (2, 2), (3, 3), (4, 4)], seen = [1, 0, 1, 0, 0]\<rparr>
   = Some s'"
    by blast
  with e h d show ?thesis by simp
qed

subsection \<open>C10: running maxima and the conversion to centimetres\<close>



subsection \<open>C8: regions on the border\<close>

text \<open>
  Claim C8: on an image with at least one row and one column, \<^verbatim>\<open>remove_border_tracks\<close>
  returns an image of the same shape in which every pixel whose label has a pixel in row 0, in
  the last row, in column 0 or in the last column is 0, and every other pixel keeps its label.
\<close>

theorem remove_border_tracks_zeroes_border_regions:
  assumes "img \<noteq> []" and "\<forall>row\<in>set img. row \<noteq> []"
  shows "\<exists>out. remove_border_tracks img = Some out \<and> length out = length img \<and>
     (\<forall>i<length img. length (out ! i) = length (img ! i) \<and>
        (\<forall>j<length (img ! i).
           out ! i ! j = (if touches_border img (img ! i ! j) then 0 else img ! i ! j)))"
proof -
  let ?vals = "nonzero_vals (map hd img) @ nonzero_vals (map last img) @
     nonzero_vals (butlast (tl (hd img))) @ nonzero_vals (butlast (tl (last img)))"
  let ?out = "map (map (\<lambda>v. if v \<in> set ?vals then 0 else v)) img"
  have ok: "\<not> (img = [] \<or> list_ex (\<lambda>row. row = []) img)"
    using assms by (simp add: list_ex_iff)
  have "fold zero_label (nonzero_vals (butlast (tl (last img))))
          (fold zero_label (nonzero_vals (butlast (tl (hd img))))
            (fold zero_label (nonzero_vals (map last img))
              (fold zero_label (nonzero_vals (map hd img)) img))) = fold zero_label ?vals img"
    by simp
  also have "\<dots> = ?out" by (rule fold_zero_label)
  finally have r: "remove_border_tracks img = Some ?out"
    using ok unfolding remove_border_tracks_def Let_def by simp
  have px: "(if v \<in> set ?vals then 0 else v) = (if touches_border img v then 0 else v)" for v
    using border_vals [OF assms, of v] by auto
  have "?out = map (map (\<lambda>v. if touches_border img v then 0 else v)) img"
    by (simp only: px)
  with r have "remove_border_tracks img =
      Some (map (map (\<lambda>v. if touches_border img v then 0 else v)) img)"
    by simp
  then show ?thesis by simp
qed

theorem remove_border_tracks_zeroes_border_regions_witness:
  "[[0, 0, 0, 0], [1, 0, 2, 0], [1, 0, 2, 0], [0, 0, 0, 3]] \<noteq> ([] :: image) \<and>
   remove_border_tracks [[0, 0, 0, 0], [1, 0, 2, 0], [1, 0, 2, 0], [0, 0, 0, 3]]
     = Some [[0, 0, 0, 0], [0, 0, 2, 0], [0, 0, 2, 0], [0, 0, 0, 0]] \<and>
   touches_border [[0, 0, 0, 0], [1, 0, 2, 0], [1, 0, 2, 0], [0, 0, 0, 3]] 1 \<and>
   \<not> touches_border [[0, 0, 0, 0], [1, 0, 2, 0], [1, 0, 2, 0], [0, 0, 0, 3]] 2"
proof -
  have h1: "[[0, 0, 0, 0], [1, 0, 2, 0], [1, 0, 2, 0], [0, 0, 0, 3]] \<noteq> ([] :: image)" by simp
  have h2: "\<forall>row\<in>set [[0, 0, 0, 0], [1, 0, 2, 0], [1, 0, 2, 0], [0, 0, 0, 3 :: nat]]. row \<noteq> []"
    by simp
  have e: "remove_border_tracks [[0, 0, 0, 0], [1, 0, 2, 0], [1, 0, 2, 0], [0, 0, 0, 3]]
     = Some [[0, 0, 0, 0], [0, 0, 2, 0], [0, 0, 2, 0], [0, 0, 0, 0]]"
    by (simp add: remove_border_tracks_def nonzero_vals_def zero_label_def)
  from remove_border_tracks_zeroes_border_regions [OF h1 h2] e
  have px: "\<forall>i<4. \<forall>j<length ([[0, 0, 0, 0], [1, 0, 2, 0], [1, 0, 2, 0], [0, 0, 0, 3 :: nat]] ! i).
      [[0, 0, 0, 0], [0, 0, 2, 0], [0, 0, 2, 0], [0, 0, 0, 0 :: nat]] ! i ! j =
      (if touches_border [[0, 0, 0, 0], [1, 0, 2, 0], [1, 0, 2, 0], [0, 0, 0, 3]]
            ([[0, 0, 0, 0], [1, 0, 2, 0], [1, 0, 2, 0], [0, 0, 0, 3]] ! i ! j)
       then 0 else [[0, 0, 0, 0], [1, 0, 2, 0], [1, 0, 2, 0], [0, 0, 0, 3]] ! i ! j)"
    by simp
  from px [rule_format, of 1 0] have t1:
    "touches_border [[0, 0, 0, 0], [1, 0, 2, 0], [1, 0, 2, 0], [0, 0, 0, 3]] 1"
    by (simp split: if_splits)
  from px [rule_format, of 1 2] have t2:
    "\<not> touches_border [[0, 0, 0, 0], [1, 0, 2, 0], [1, 0, 2, 0], [0, 0, 0, 3]] 2"
    by (simp split: if_splits)
  from h1 e t1 t2 show ?thesis by blast
qed
subsection \<open>C9: components below the noise threshold\<close>

text \<open>
  Claim C9: when the labeller answers a labelled array of the shape of the image,
  \<^verbatim>\<open>denoise\<close> returns an image of the same shape in which every pixel of a component with
  at most \<^verbatim>\<open>nthresh\<close> pixels is 0, and every pixel of a component with more than
  \<^verbatim>\<open>nthresh\<close> pixels keeps its value.
\<close>

theorem denoise_zeroes_small_components:
  assumes "label img = (labeled_array, num_features)"
    and "rect img" and "rect labeled_array" and "shape labeled_array = shape img"
  shows "\<exists>out. denoise label img nthresh = Some out \<and> length out = length img \<and>
     (\<forall>i<length img. length (out ! i) = length (img ! i) \<and>
        (\<forall>j<length (img ! i).
           out ! i ! j =
             (if int (pixel_count labeled_array (labeled_array ! i ! j)) \<le> nthresh then 0
              else img ! i ! j)))"
proof -
  let ?flat = "concat labeled_array"
  let ?noise = "filter (\<lambda>k. int (bincount ?flat ! k) \<le> nthresh) [0..<length (bincount ?flat)]"
  let ?mask = "map (map (\<lambda>l. l \<in> set ?noise)) labeled_array"
  let ?out = "map2 (map2 (\<lambda>v m. if m then 0 else v)) img ?mask"
  have len: "length labeled_array = length img" and w: "snd (shape labeled_array) = snd (shape img)"
    using assms(4) by (simp_all add: shape_def)
  have lrows: "\<forall>row\<in>set labeled_array. length row = snd (shape img)"
    using rect_rows [OF assms(3)] w by simp
  have irows: "\<forall>row\<in>set img. length row = snd (shape img)"
    using rect_rows [OF assms(2)] .
  have sh: "shape img = (length labeled_array, snd (shape img))"
    using len by (simp add: shape_def)
  have "concat ?mask = map (\<lambda>l. l \<in> set ?noise) ?flat" by (simp add: map_concat)
  with reshape_concat [OF lrows, of "\<lambda>l. l \<in> set ?noise"]
  have rs: "reshape (map (\<lambda>l. l \<in> set ?noise) ?flat) (shape img) = Some ?mask"
    using sh by simp
  have d: "denoise label img nthresh = Some ?out"
    unfolding denoise_def assms(1) Let_def prod.case rs by simp
  have "length ?out = length img" using len by simp
  moreover have "\<forall>i<length img. length (?out ! i) = length (img ! i) \<and>
        (\<forall>j<length (img ! i).
           ?out ! i ! j =
             (if int (pixel_count labeled_array (labeled_array ! i ! j)) \<le> nthresh then 0
              else img ! i ! j))"
  proof (intro allI impI conjI)
    fix i assume i: "i < length img"
    then have li: "i < length labeled_array" using len by simp
    have rl: "length (labeled_array ! i) = length (img ! i)"
      using lrows irows i li by simp
    show "length (?out ! i) = length (img ! i)" using i li rl by simp
    fix j assume j: "j < length (img ! i)"
    then have lj: "j < length (labeled_array ! i)" using rl by simp
    have "labeled_array ! i \<in> set labeled_array" using li by simp
    moreover have "labeled_array ! i ! j \<in> set (labeled_array ! i)" using lj by simp
    ultimately have "labeled_array ! i ! j \<in> set ?flat" by auto
    from noise_idx_iff [OF this, of nthresh]
    show "?out ! i ! j =
             (if int (pixel_count labeled_array (labeled_array ! i ! j)) \<le> nthresh then 0
              else img ! i ! j)"
      using i li j lj by (simp add: pixel_count_def)
  qed
  ultimately show ?thesis using d by blast
qed

theorem denoise_zeroes_small_components_witness:
  "rect [[255, 255, 0], [0, 0, 0], [0, 0, 255]] \<and>
   shape [[1, 1, 0], [0, 0, 0], [0, 0, 2]] = shape [[255, 255, 0], [0, 0, 0], [0, 0, 255]] \<and>
   denoise (\<lambda>img. ([[1, 1, 0], [0, 0, 0], [0, 0, 2]], 2)) [[255, 255, 0], [0, 0, 0], [0, 0, 255]] 1
     = Some [[255, 255, 0], [0, 0, 0], [0, 0, 0]] \<and>
   pixel_count [[1, 1, 0], [0, 0, 0], [0, 0, 2]] 1 = 2 \<and>
   pixel_count [[1, 1, 0], [0, 0, 0], [0, 0, 2]] 2 = 1"
proof -
  have l: "(\<lambda>img. ([[1, 1, 0], [0, 0, 0], [0, 0, 2]], 2)) [[255, 255, 0], [0, 0, 0], [0, 0, 255]] = ([[1, 1, 0], [0, 0, 0], [0, 0, 2]], 2)"
    by simp
  have r1: "rect [[255, 255, 0], [0, 0, 0], [0, 0, 255]]" by (simp add: rect_def shape_def)
  have r2: "rect [[1, 1, 0], [0, 0, 0], [0, 0, 2]]" by (simp add: rect_def shape_def)
  have sh: "shape [[1, 1, 0], [0, 0, 0], [0, 0, 2]] = shape [[255, 255, 0], [0, 0, 0], [0, 0, 255]]"
    by (simp add: shape_def)
  have e: "denoise (\<lambda>img. ([[1, 1, 0], [0, 0, 0], [0, 0, 2]], 2)) [[255, 255, 0], [0, 0, 0], [0, 0, 255]] 1
     = Some [[255, 255, 0], [0, 0, 0], [0, 0, 0]]"
    by code_simp
  have p1: "pixel_count [[1, 1, 0], [0, 0, 0], [0, 0, 2]] 1 = 2" by (simp add: pixel_count_def)
  have p2: "pixel_count [[1, 1, 0], [0, 0, 0], [0, 0, 2]] 2 = 1" by (simp add: pixel_count_def)
  from denoise_zeroes_small_components [OF l r1 r2 sh, of 1]
  obtain out where "denoise (\<lambda>img. ([[1, 1, 0], [0, 0, 0], [0, 0, 2]], 2)) [[255, 255, 0], [0, 0, 0], [0, 0, 255]] 1 = Some out"
    by blast
  with e r1 sh p1 p2 show ?thesis by simp
qed

subsection \<open>C4: skipped frames\<close>

text \<open>
  Claim C4: a frame whose mask is all background after \<^verbatim>\<open>denoise\<close>, or whose clusters are
  all background after \<^verbatim>\<open>remove_border_tracks\<close>, leaves the whole state as it is, the five
  track buffers and the three lists of records; so does any number of such frames in a row.
\<close>

theorem skipped_frames_leave_state:
  assumes "list_all (skipped label4 label8 opt) masks"
  shows "main_loop fp label4 label8 opt masks s = Some s"
  using assms by (induction masks) (simp_all add: process_frame_skipped)

theorem skipped_frames_leave_state_witness:
  "list_all (skipped (\<lambda>img. (map (map (\<lambda>v. if v = 0 then 0 else 1)) img, 1))
                     (\<lambda>img. (map (map (\<lambda>v. if v = 0 then 0 else 1)) img, 1))
      \<lparr>framebuff = 1, meanshift_length = 25, denoise_thresh = 1, pix_per_cm = 120\<rparr>)
     [[[0, 0, 0], [0, 255, 0], [0, 0, 0]], [[255, 255, 0], [0, 0, 0], [0, 0, 0]],
      [[0, 0, 0], [0, 255, 0], [0, 0, 0]]] \<and>
   main_loop exact (\<lambda>img. (map (map (\<lambda>v. if v = 0 then 0 else 1)) img, 1))
             (\<lambda>img. (map (map (\<lambda>v. if v = 0 then 0 else 1)) img, 1))
      \<lparr>framebuff = 1, meanshift_length = 25, denoise_thresh = 1, pix_per_cm = 120\<rparr>
     [[[0, 0, 0], [0, 255, 0], [0, 0, 0]], [[255, 255, 0], [0, 0, 0], [0, 0, 0]],
      [[0, 0, 0], [0, 255, 0], [0, 0, 0]]]
     \<lparr>len_abs = [Finite 2], area_abs = [Finite 3], frames_abs = [4], len_buffer = [5],
      area_buffer = [600],
      frame_buffer = [7], mean_buffer = [(1, 1)], seen = [1]\<rparr>
   = Some \<lparr>len_abs = [Finite 2], area_abs = [Finite 3], frames_abs = [4], len_buffer = [5],
      area_buffer = [600], frame_buffer = [7], mean_buffer = [(1, 1)], seen = [1]\<rparr>"
proof -
  have h: "list_all (skipped (\<lambda>img. (map (map (\<lambda>v. if v = 0 then 0 else 1)) img, 1))
                     (\<lambda>img. (map (map (\<lambda>v. if v = 0 then 0 else 1)) img, 1))
      \<lparr>framebuff = 1, meanshift_length = 25, denoise_thresh = 1, pix_per_cm = 120\<rparr>)
     [[[0, 0, 0], [0, 255, 0], [0, 0, 0]], [[255, 255, 0], [0, 0, 0], [0, 0, 0]],
      [[0, 0, 0], [0, 255, 0], [0, 0, 0]]]"
    by code_simp
  from skipped_frames_leave_state [OF h] h show ?thesis by blast
qed

subsection \<open>C5: the tracks left when the frames run out\<close>

text \<open>
  Claim C5: what the program writes after the last frame is the three lists of records as the
  loop left them; the tracks still in the store, which all have their seen flag set, leave no
  record, whatever their frame count.
\<close>

theorem exhausted_source_discards_live_tracks:
  assumes "main_loop fp label4 label8 opt masks init_state = Some s"
  shows "program fp label4 label8 opt masks = Some (len_abs s, area_abs s, frames_abs s) \<and>
         0 \<notin> set (seen s)"
proof -
  have inv: "store_inv init_state" and sn: "0 \<notin> set (seen init_state)"
    by (simp_all add: store_inv_def init_state_def)
  from main_loop_seen [OF assms inv sn] assms show ?thesis
    by (simp add: program_def data_def)
qed

theorem exhausted_source_discards_live_tracks_witness:
  "main_loop exact (\<lambda>img. (map (map (\<lambda>v. if v = 0 then 0 else 1)) img, 1))
             (\<lambda>img. (map (map (\<lambda>v. if v = 0 then 0 else 1)) img, 1))
      \<lparr>framebuff = 1, meanshift_length = 25, denoise_thresh = 0, pix_per_cm = 120\<rparr>
      [[[0, 0, 0], [0, 255, 0], [0, 0, 0]], [[0, 0, 0], [0, 255, 0], [0, 0, 0]],
       [[0, 0, 0], [0, 255, 0], [0, 0, 0]]] init_state
   = Some \<lparr>len_abs = [], area_abs = [], frames_abs = [], len_buffer = [0], area_buffer = [1],
      frame_buffer = [3], mean_buffer = [(1, 1)], seen = [1]\<rparr> \<and>
   program exact (\<lambda>img. (map (map (\<lambda>v. if v = 0 then 0 else 1)) img, 1))
           (\<lambda>img. (map (map (\<lambda>v. if v = 0 then 0 else 1)) img, 1))
      \<lparr>framebuff = 1, meanshift_length = 25, denoise_thresh = 0, pix_per_cm = 120\<rparr>
      [[[0, 0, 0], [0, 255, 0], [0, 0, 0]], [[0, 0, 0], [0, 255, 0], [0, 0, 0]],
       [[0, 0, 0], [0, 255, 0], [0, 0, 0]]] = Some ([], [], [])"
proof -
  have m: "main_loop exact (\<lambda>img. (map (map (\<lambda>v. if v = 0 then 0 else 1)) img, 1))
             (\<lambda>img. (map (map (\<lambda>v. if v = 0 then 0 else 1)) img, 1))
      \<lparr>framebuff = 1, meanshift_length = 25, denoise_thresh = 0, pix_per_cm = 120\<rparr>
      [[[0, 0, 0], [0, 255, 0], [0, 0, 0]], [[0, 0, 0], [0, 255, 0], [0, 0, 0]],
       [[0, 0, 0], [0, 255, 0], [0, 0, 0]]] init_state
   = Some \<lparr>len_abs = [], area_abs = [], frames_abs = [], len_buffer = [0], area_buffer = [1],
      frame_buffer = [3], mean_buffer = [(1, 1)], seen = [1]\<rparr>"
    by (simp add: frame_simps run_simps)
  from exhausted_source_discards_live_tracks [OF m] m show ?thesis by simp
qed

end
